theory Spec2Isabelle
  imports Main "HOL-Library.Char_ord" "HOL-Library.List_Lexorder" "HOL-Library.Multiset"
begin

section \<open>Strings, paths and configuration\<close>

text \<open>
  Python's \<open>str.startswith\<close>, \<open>str.endswith\<close>, \<open>str.rstrip('/')\<close> and
  \<open>s.split('/')[-1]\<close>, and \<open>posixpath.join\<close> for two components.
\<close>

definition startswith :: "string \<Rightarrow> string \<Rightarrow> bool" where
  "startswith s p = (take (length p) s = p)"

definition endswith :: "string \<Rightarrow> string \<Rightarrow> bool" where
  "endswith s p = (length p \<le> length s \<and> drop (length s - length p) s = p)"

definition rstrip_slash :: "string \<Rightarrow> string" where
  "rstrip_slash s = rev (dropWhile (\<lambda>c. c = CHR ''/'') (rev s))"

definition last_component :: "string \<Rightarrow> string" where
  "last_component s = rev (takeWhile (\<lambda>c. c \<noteq> CHR ''/'') (rev s))"

definition os_path_join :: "string \<Rightarrow> string \<Rightarrow> string" where
  "os_path_join a b =
     (if startswith b ''/'' then b
      else if a = [] \<or> endswith a ''/'' then a @ b
      else a @ ''/'' @ b)"

text \<open>\<open>range(n)\<close> for an integer \<open>n\<close>: empty when \<open>n \<le> 0\<close>.\<close>

definition py_range :: "int \<Rightarrow> nat list" where
  "py_range n = [0..<nat n]"

datatype error = KeyError | ValueError | OSError | NotADirectoryError | AuthError | MediaError

text \<open>
  The fields of \<open>Config\<close> that the modelled functions read.
  \<open>DAILY_PROCESS_TIME\<close> holds what \<open>map(int, config.DAILY_PROCESS_TIME.split(':'))\<close>
  unpacks to, and \<open>None\<close> when that raises \<open>ValueError\<close> or \<open>AttributeError\<close>.
\<close>

record config =
  BASE_URL :: string
  DATA_DIR :: string
  MAX_RETRIES :: int
  YOUTUBE_UPLOAD_TITLE_PREFIX :: string
  YOUTUBE_UPLOAD_DESCRIPTION :: string
  DAILY_PROCESS_TIME :: "(int \<times> int) option"

definition preview_url :: "config \<Rightarrow> error + string" where
  "preview_url cfg =
     (if BASE_URL cfg = [] then Inl ValueError
      else Inr (rstrip_slash (BASE_URL cfg) @ ''/preview.php''))"

section \<open>Listing entries: \<open>parse_video_metadata\<close>\<close>

text \<open>
  A \<open>fieldset\<close> element is seen by the parser through three queries only:
  \<open>find("a", href=True)\<close>, \<open>find("button", attrs={"name": "delete1"})\<close> and
  \<open>get_text(" ", strip=True)\<close>.  The record holds what they range over: the
  \<open>href\<close> values of the anchors that carry one, in document order; for every
  button named \<open>delete1\<close>, in document order, its \<open>value\<close> attribute if it has
  one; and the text.  Indexing a tag by an attribute it lacks raises \<open>KeyError\<close>.
\<close>

record tag =
  links :: "string list"
  delete_buttons :: "string option list"
  text_of :: string

record video_meta =
  video :: string
  thumbnail :: "string option"
  title :: string
  size_s :: string
  duration :: string
  date_s :: string
  time_s :: string

text \<open>
  The four regular expressions.  \<open>\d\<close> is modelled on ASCII digits.  A search
  returns the leftmost match; \<open>\d+\<close> is greedy, and giving digits back never
  helps because the next pattern character is not a digit.
\<close>

definition is_digit :: "char \<Rightarrow> bool" where
  "is_digit c = (c \<in> set ''0123456789'')"

datatype tok = D | L char

fun match_fixed :: "tok list \<Rightarrow> string \<Rightarrow> bool" where
  "match_fixed [] s = True"
| "match_fixed (t # ts) [] = False"
| "match_fixed (D # ts) (c # cs) = (is_digit c \<and> match_fixed ts cs)"
| "match_fixed (L x # ts) (c # cs) = (c = x \<and> match_fixed ts cs)"

definition fixed_at :: "tok list \<Rightarrow> string \<Rightarrow> string option" where
  "fixed_at p s = (if match_fixed p s then Some (take (length p) s) else None)"

definition digits_then_at :: "string \<Rightarrow> string \<Rightarrow> string option" where
  "digits_then_at suffix s =
     (let ds = takeWhile is_digit s; rest = dropWhile is_digit s
      in if ds \<noteq> [] \<and> startswith rest suffix then Some (ds @ suffix) else None)"

fun re_search :: "(string \<Rightarrow> string option) \<Rightarrow> string \<Rightarrow> string option" where
  "re_search m [] = m []"
| "re_search m (c # cs) =
     (case m (c # cs) of Some r \<Rightarrow> Some r | None \<Rightarrow> re_search m cs)"

definition date_pattern :: "tok list" where
  "date_pattern = [D, D, D, D, L CHR ''-'', D, D, L CHR ''-'', D, D]"

definition time_pattern :: "tok list" where
  "time_pattern = [D, D, L CHR '':'', D, D, L CHR '':'', D, D]"

definition group_or_empty :: "string option \<Rightarrow> string" where
  "group_or_empty m = (case m of Some g \<Rightarrow> g | None \<Rightarrow> [])"

definition media_href :: "string \<Rightarrow> bool" where
  "media_href h = (startswith h ''media/'' \<and> endswith h ''.mp4'')"

definition build_meta :: "string \<Rightarrow> string option \<Rightarrow> string \<Rightarrow> video_meta" where
  "build_meta video_url thumb details =
     (let size = group_or_empty (re_search (digits_then_at '' MB'') details);
          dur = group_or_empty (re_search (digits_then_at ''s'') details);
          date = group_or_empty (re_search (fixed_at date_pattern) details);
          time_str = group_or_empty (re_search (fixed_at time_pattern) details);
          ttl = (if date \<noteq> [] \<and> time_str \<noteq> [] then date @ '' '' @ time_str
                 else ''Unknown DateTime'')
      in \<lparr>video = video_url, thumbnail = thumb, title = ttl, size_s = size,
          duration = dur, date_s = date, time_s = time_str\<rparr>)"

definition parse_video_metadata :: "tag \<Rightarrow> error + video_meta option" where
  "parse_video_metadata fieldset =
     (case links fieldset of
        [] \<Rightarrow> Inr None
      | href # _ \<Rightarrow>
          if \<not> media_href href then Inr None
          else (case delete_buttons fieldset of
                  [] \<Rightarrow> Inr (Some (build_meta href None (text_of fieldset)))
                | None # _ \<Rightarrow> Inl KeyError
                | Some v # _ \<Rightarrow> Inr (Some (build_meta href (Some v) (text_of fieldset)))))"

section \<open>The camera server: \<open>VideoScraper\<close>\<close>

text \<open>
  The network and the local disk are the environment.  A request either returns
  a response with a status code or raises (connection error, timeout).  The
  environment answers the \<open>n\<close>-th request of a run with \<open>respond n\<close>; the
  preview page served with it holds the \<open>fileicon\<close> fieldsets \<open>pages n\<close>; and
  \<open>disk_ok n\<close> tells whether the body of that response can be written to the
  local file.  \<open>makedirs_ok\<close> tells whether \<open>os.makedirs(..., exist_ok=True)\<close>
  succeeds on a path.  Every request, sleep and completed write is appended to
  \<open>events\<close>.  The remaining events belong to the daily pipeline below.
\<close>

datatype reply = Reply nat | Fault

datatype event =
    Get string
  | Post string string
  | Sleep nat
  | Wrote string
  | Makedirs string
  | Manifest string "string list"
  | Ffmpeg string string
  | Authenticate
  | Insert string string string
  | Remove string
  | Rmdir string

record world =
  calls :: nat
  respond :: "nat \<Rightarrow> reply"
  pages :: "nat \<Rightarrow> tag list"
  disk_ok :: "nat \<Rightarrow> bool"
  makedirs_ok :: "string \<Rightarrow> bool"
  events :: "event list"

definition emit :: "event \<Rightarrow> world \<Rightarrow> world" where
  "emit e w = w\<lparr>events := events w @ [e]\<rparr>"

definition sleep :: "nat \<Rightarrow> world \<Rightarrow> world" where
  "sleep n w = emit (Sleep n) w"

definition request :: "event \<Rightarrow> world \<Rightarrow> reply \<times> world" where
  "request e w = (respond w (calls w), emit e (w\<lparr>calls := Suc (calls w)\<rparr>))"

text \<open>
  The retry loop of \<open>fetch_video_list\<close>: \<open>for attempt in range(MAX_RETRIES)\<close>
  with \<open>break\<close> on a 200 response and \<open>sleep(2 ** attempt)\<close> in the handler;
  \<open>None\<close> is the loop's \<open>else\<close> branch.
\<close>

fun fetch_page :: "config \<Rightarrow> nat list \<Rightarrow> world \<Rightarrow> tag list option \<times> world" where
  "fetch_page cfg [] w = (None, w)"
| "fetch_page cfg (attempt # rest) w =
     (case preview_url cfg of
        Inl e \<Rightarrow> fetch_page cfg rest (sleep (2 ^ attempt) w)
      | Inr url \<Rightarrow>
          (case request (Get url) w of (r, w1) \<Rightarrow>
             if r = Reply 200 then (Some (pages w (calls w)), w1)
             else fetch_page cfg rest (sleep (2 ^ attempt) w1)))"

fun collect_videos :: "tag list \<Rightarrow> error + video_meta list" where
  "collect_videos [] = Inr []"
| "collect_videos (fieldset # rest) =
     (case parse_video_metadata fieldset of
        Inl e \<Rightarrow> Inl e
      | Inr None \<Rightarrow> collect_videos rest
      | Inr (Some meta) \<Rightarrow>
          (case collect_videos rest of Inl e \<Rightarrow> Inl e | Inr ms \<Rightarrow> Inr (meta # ms)))"

definition fetch_video_list :: "config \<Rightarrow> world \<Rightarrow> (error + video_meta list) \<times> world" where
  "fetch_video_list cfg w =
     (case fetch_page cfg (py_range (MAX_RETRIES cfg)) w of
        (None, w1) \<Rightarrow> (Inr [], w1)
      | (Some soup, w1) \<Rightarrow> (collect_videos soup, w1))"

definition video_url_of :: "config \<Rightarrow> video_meta \<Rightarrow> string" where
  "video_url_of cfg meta = rstrip_slash (BASE_URL cfg) @ ''/'' @ video meta"

definition local_path_of :: "string \<Rightarrow> video_meta \<Rightarrow> string" where
  "local_path_of day_dir meta = os_path_join day_dir (last_component (video meta))"

fun download_attempts :: "string \<Rightarrow> string \<Rightarrow> nat list \<Rightarrow> world \<Rightarrow> bool \<times> world" where
  "download_attempts url local_path [] w = (False, w)"
| "download_attempts url local_path (attempt # rest) w =
     (case request (Get url) w of (r, w1) \<Rightarrow>
        if r = Reply 200 \<and> disk_ok w (calls w) then (True, emit (Wrote local_path) w1)
        else download_attempts url local_path rest (sleep (2 ^ attempt) w1))"

definition download_video :: "config \<Rightarrow> video_meta \<Rightarrow> string \<Rightarrow> world \<Rightarrow> bool \<times> world" where
  "download_video cfg meta day_dir w =
     download_attempts (video_url_of cfg meta) (local_path_of day_dir meta)
       (py_range (MAX_RETRIES cfg)) w"

fun delete_attempts :: "config \<Rightarrow> string \<Rightarrow> nat list \<Rightarrow> world \<Rightarrow> bool \<times> world" where
  "delete_attempts cfg handle [] w = (False, w)"
| "delete_attempts cfg handle (attempt # rest) w =
     (case preview_url cfg of
        Inl e \<Rightarrow> delete_attempts cfg handle rest (sleep (2 ^ attempt) w)
      | Inr url \<Rightarrow>
          (case request (Post url handle) w of (r, w1) \<Rightarrow>
             if r = Reply 200 then (True, w1)
             else delete_attempts cfg handle rest (sleep (2 ^ attempt) w1)))"

text \<open>\<open>not video_meta.get('thumbnail')\<close>: a missing and an empty handle are both falsy.\<close>

definition has_handle :: "video_meta \<Rightarrow> bool" where
  "has_handle meta = (case thumbnail meta of None \<Rightarrow> False | Some h \<Rightarrow> h \<noteq> [])"

definition delete_video_from_server :: "config \<Rightarrow> video_meta \<Rightarrow> world \<Rightarrow> bool \<times> world" where
  "delete_video_from_server cfg meta w =
     (case thumbnail meta of
        None \<Rightarrow> (False, w)
      | Some h \<Rightarrow>
          if h = [] then (False, w)
          else delete_attempts cfg h (py_range (MAX_RETRIES cfg)) w)"

text \<open>The body of the \<open>for video_meta in videos\<close> loop, and the loop.\<close>

definition process_record :: "config \<Rightarrow> string \<Rightarrow> video_meta \<Rightarrow> world \<Rightarrow> world" where
  "process_record cfg day_dir meta w =
     (case download_video cfg meta day_dir w of
        (downloaded, w1) \<Rightarrow>
          if downloaded then snd (delete_video_from_server cfg meta w1) else w1)"

fun clean_loop :: "config \<Rightarrow> string \<Rightarrow> video_meta list \<Rightarrow> world \<Rightarrow> world" where
  "clean_loop cfg day_dir [] w = w"
| "clean_loop cfg day_dir (meta # rest) w =
     clean_loop cfg day_dir rest (process_record cfg day_dir meta w)"

text \<open>\<open>today\<close> is \<open>datetime.now().strftime("%Y-%m-%d")\<close>.\<close>

definition fetch_and_clean :: "config \<Rightarrow> string \<Rightarrow> world \<Rightarrow> (error + unit) \<times> world" where
  "fetch_and_clean cfg today w =
     (case fetch_video_list cfg w of
        (Inl e, w1) \<Rightarrow> (Inl e, w1)
      | (Inr videos, w1) \<Rightarrow>
          if videos = [] then (Inr (), w1)
          else let day_dir = os_path_join (DATA_DIR cfg) today
               in if \<not> makedirs_ok w1 day_dir then (Inl OSError, w1)
                  else (Inr (), clean_loop cfg day_dir videos (emit (Makedirs day_dir) w1)))"

text \<open>The sleeps of an event list, oldest first.\<close>

fun slept :: "event \<Rightarrow> nat list" where
  "slept (Sleep n) = [n]"
| "slept e = []"

definition sleeps_of :: "event list \<Rightarrow> nat list" where
  "sleeps_of es = concat (map slept es)"

text \<open>The deletion handles posted to the server so far, oldest first.\<close>

fun posted :: "event \<Rightarrow> string list" where
  "posted (Post url h) = [h]"
| "posted e = []"

definition delete_requests :: "world \<Rightarrow> string list" where
  "delete_requests w = concat (map posted (events w))"

section \<open>The daily pipeline: \<open>YouTubeUploader\<close> and \<open>VideoProcessor\<close>\<close>

text \<open>
  The file system maps the path of a directory to the names it lists
  (\<open>os.listdir\<close> order) and the path of anything else to \<open>File\<close>.  A file of a
  directory is addressed by the directory and its name: \<open>os.path.exists\<close> and
  \<open>os.remove\<close> on \<open>os.path.join(day_dir, file)\<close> look \<open>file\<close> up in the
  listing of \<open>day_dir\<close>.  The rest of the environment: whether a path can be
  opened for writing; what \<open>os.path.abspath\<close> returns; the result of the
  \<open>n\<close>-th run of the merge executable; whether \<open>os.remove\<close> succeeds on a
  path; whether the authentication flow succeeds; whether \<open>MediaFileUpload\<close> can
  open a path; and the result of the \<open>n\<close>-th upload attempt.
  \<open>youtube_service\<close> is the uploader's session handle (\<open>True\<close> once set).
\<close>

datatype node = Dir "string list" | File

datatype ffmpeg_result = Exited int | TimedOut | Crashed

text \<open>
  An upload attempt completes, or raises; \<open>Failed s\<close> carries the status of the
  exception's \<open>resp\<close> when the exception has a truthy \<open>resp\<close>, else \<open>None\<close>.
\<close>

datatype upload_result = Uploaded | Failed "int option"

record store =
  fs :: "string \<Rightarrow> node option"
  writable :: "string \<Rightarrow> bool"
  abspath :: "string \<Rightarrow> string"
  ffmpeg_runs :: nat
  ffmpeg :: "nat \<Rightarrow> ffmpeg_result"
  remove_ok :: "string \<Rightarrow> bool"
  youtube_service :: bool
  auth_ok :: bool
  media_ok :: "string \<Rightarrow> bool"
  uploads :: nat
  next_upload :: "nat \<Rightarrow> upload_result"
  history :: "event list"

definition record_event :: "event \<Rightarrow> store \<Rightarrow> store" where
  "record_event e st = st\<lparr>history := history st @ [e]\<rparr>"

definition path_exists :: "store \<Rightarrow> string \<Rightarrow> bool" where
  "path_exists st p = (fs st p \<noteq> None)"

definition listdir :: "store \<Rightarrow> string \<Rightarrow> error + string list" where
  "listdir st p =
     (case fs st p of
        None \<Rightarrow> Inl OSError
      | Some File \<Rightarrow> Inl NotADirectoryError
      | Some (Dir names) \<Rightarrow> Inr names)"

definition file_exists :: "store \<Rightarrow> string \<Rightarrow> string \<Rightarrow> bool" where
  "file_exists st dir name =
     (case fs st dir of Some (Dir names) \<Rightarrow> name \<in> set names | _ \<Rightarrow> False)"

definition add_file :: "string \<Rightarrow> string \<Rightarrow> store \<Rightarrow> store" where
  "add_file dir name st =
     (case fs st dir of
        Some (Dir names) \<Rightarrow>
          if name \<in> set names then st
          else st\<lparr>fs := (fs st)(dir \<mapsto> Dir (names @ [name]))\<rparr>
      | _ \<Rightarrow> st)"

definition remove_file :: "string \<Rightarrow> string \<Rightarrow> store \<Rightarrow> store" where
  "remove_file dir name st =
     (case fs st dir of
        Some (Dir names) \<Rightarrow> st\<lparr>fs := (fs st)(dir \<mapsto> Dir (removeAll name names))\<rparr>
      | _ \<Rightarrow> st)"

subsection \<open>\<open>YouTubeUploader.upload_video\<close>\<close>

text \<open>
  One iteration per attempt.  The handler sleeps 3600 seconds when the exception
  carries status 403 and \<open>2 ** attempt\<close> otherwise.
\<close>

definition backoff :: "int option \<Rightarrow> nat \<Rightarrow> nat" where
  "backoff status attempt = (if status = Some 403 then 3600 else 2 ^ attempt)"

fun upload_attempts :: "string \<Rightarrow> string \<Rightarrow> string \<Rightarrow> nat list \<Rightarrow> store \<Rightarrow> bool \<times> store" where
  "upload_attempts file_path ttl descr [] st = (False, st)"
| "upload_attempts file_path ttl descr (attempt # rest) st =
     (let r = next_upload st (uploads st);
          st1 = record_event (Insert file_path ttl descr) (st\<lparr>uploads := Suc (uploads st)\<rparr>)
      in case r of
           Uploaded \<Rightarrow> (True, st1)
         | Failed status \<Rightarrow>
             upload_attempts file_path ttl descr rest
               (record_event (Sleep (backoff status attempt)) st1))"

definition get_authenticated_service :: "store \<Rightarrow> (error + unit) \<times> store" where
  "get_authenticated_service st =
     (if auth_ok st then (Inr (), record_event Authenticate (st\<lparr>youtube_service := True\<rparr>))
      else (Inl AuthError, st))"

definition description_or_default :: "config \<Rightarrow> string option \<Rightarrow> string" where
  "description_or_default cfg description =
     (case description of
        None \<Rightarrow> YOUTUBE_UPLOAD_DESCRIPTION cfg
      | Some d \<Rightarrow> if d = [] then YOUTUBE_UPLOAD_DESCRIPTION cfg else d)"

definition upload_video ::
  "config \<Rightarrow> string \<Rightarrow> string \<Rightarrow> string option \<Rightarrow> store \<Rightarrow> (error + bool) \<times> store" where
  "upload_video cfg file_path ttl description st =
     (case (if youtube_service st then (Inr (), st) else get_authenticated_service st) of
        (Inl e, st1) \<Rightarrow> (Inl e, st1)
      | (Inr u, st1) \<Rightarrow>
          if \<not> media_ok st1 file_path then (Inl MediaError, st1)
          else (case upload_attempts file_path ttl (description_or_default cfg description)
                       (py_range (MAX_RETRIES cfg)) st1 of
                  (ok, st2) \<Rightarrow> (Inr ok, st2)))"

subsection \<open>\<open>VideoProcessor\<close>\<close>

definition get_video_files :: "store \<Rightarrow> string \<Rightarrow> error + string list" where
  "get_video_files st day_dir =
     (if \<not> path_exists st day_dir then Inr []
      else (case listdir st day_dir of
              Inl e \<Rightarrow> Inl e
            | Inr names \<Rightarrow> Inr (sort (filter (\<lambda>f. endswith f ''.mp4'') names))))"

definition manifest_line :: "store \<Rightarrow> string \<Rightarrow> string \<Rightarrow> string" where
  "manifest_line st day_dir file =
     ''file '' @ [CHR 0x27] @ abspath st (os_path_join day_dir file) @ [CHR 0x27, CHR 0x0A]"

definition create_ffmpeg_file_list :: "string \<Rightarrow> string list \<Rightarrow> store \<Rightarrow> (error + string) \<times> store" where
  "create_ffmpeg_file_list day_dir files st =
     (let list_path = os_path_join day_dir ''files.txt''
      in if \<not> writable st list_path then (Inl OSError, st)
         else (Inr list_path,
               record_event (Manifest list_path (map (manifest_line st day_dir) files))
                 (add_file day_dir ''files.txt'' st)))"

text \<open>
  The merge loop.  The output path is \<open>os.path.join(day_dir, output_filename)\<close>;
  the model takes the name and joins it itself, so that a run that exits with
  status 0 can enter the artifact in the listing of \<open>day_dir\<close>.  A failed run is
  taken to leave the listing as it was.
\<close>

fun concat_attempts :: "string \<Rightarrow> string \<Rightarrow> string \<Rightarrow> nat list \<Rightarrow> store \<Rightarrow> bool \<times> store" where
  "concat_attempts list_path day_dir output_filename [] st = (False, st)"
| "concat_attempts list_path day_dir output_filename (attempt # rest) st =
     (let r = ffmpeg st (ffmpeg_runs st);
          st1 = record_event (Ffmpeg list_path (os_path_join day_dir output_filename))
                  (st\<lparr>ffmpeg_runs := Suc (ffmpeg_runs st)\<rparr>)
      in if r = Exited 0 then (True, add_file day_dir output_filename st1)
         else concat_attempts list_path day_dir output_filename rest
                (record_event (Sleep (2 ^ attempt)) st1))"

definition concatenate_videos ::
  "config \<Rightarrow> string \<Rightarrow> string list \<Rightarrow> string \<Rightarrow> store \<Rightarrow> (error + bool) \<times> store" where
  "concatenate_videos cfg day_dir files output_filename st =
     (case create_ffmpeg_file_list day_dir files st of
        (Inl e, st1) \<Rightarrow> (Inl e, st1)
      | (Inr list_path, st1) \<Rightarrow>
          (case concat_attempts list_path day_dir output_filename (py_range (MAX_RETRIES cfg)) st1 of
             (ok, st2) \<Rightarrow> (Inr ok, st2)))"

text \<open>The body of the loop of \<open>cleanup_files\<close>, and the loop.\<close>

definition cleanup_step :: "string \<Rightarrow> string \<Rightarrow> store \<Rightarrow> store" where
  "cleanup_step day_dir file st =
     (if file_exists st day_dir file
      then (let st1 = record_event (Remove (os_path_join day_dir file)) st
            in if remove_ok st (os_path_join day_dir file) then remove_file day_dir file st1
               else st1)
      else st)"

fun cleanup_files :: "string \<Rightarrow> string list \<Rightarrow> store \<Rightarrow> store" where
  "cleanup_files day_dir [] st = st"
| "cleanup_files day_dir (file # rest) st =
     cleanup_files day_dir rest (cleanup_step day_dir file st)"

text \<open>\<open>os.rmdir\<close> inside \<open>try ... except OSError\<close>: an empty directory goes, anything else stays.\<close>

definition rmdir_tolerant :: "string \<Rightarrow> store \<Rightarrow> store" where
  "rmdir_tolerant day_dir st =
     (if fs st day_dir = Some (Dir [])
      then record_event (Rmdir day_dir) (st\<lparr>fs := (fs st)(day_dir := None)\<rparr>)
      else st)"

definition output_filename_of :: "string \<Rightarrow> string" where
  "output_filename_of date_str = date_str @ ''_combined.mp4''"

definition title_of :: "config \<Rightarrow> string \<Rightarrow> string" where
  "title_of cfg date_str = YOUTUBE_UPLOAD_TITLE_PREFIX cfg @ '' '' @ date_str"

text \<open>\<open>today\<close> is \<open>datetime.now().strftime("%Y-%m-%d")\<close>, used when no date is given.\<close>

definition process_daily_videos ::
  "config \<Rightarrow> string \<Rightarrow> string option \<Rightarrow> store \<Rightarrow> (error + bool) \<times> store" where
  "process_daily_videos cfg today date_arg st =
     (let date_str = (case date_arg of None \<Rightarrow> today | Some d \<Rightarrow> d);
          day_dir = os_path_join (DATA_DIR cfg) date_str
      in if \<not> path_exists st day_dir then (Inr False, st)
         else (case get_video_files st day_dir of
                 Inl e \<Rightarrow> (Inl e, st)
               | Inr files \<Rightarrow>
                   if files = [] then (Inr False, st)
                   else (let output_filename = output_filename_of date_str;
                             output_path = os_path_join day_dir output_filename
                         in case concatenate_videos cfg day_dir files output_filename st of
                              (Inl e, st1) \<Rightarrow> (Inl e, st1)
                            | (Inr merged, st1) \<Rightarrow>
                                if \<not> merged then (Inr False, st1)
                                else (case upload_video cfg output_path (title_of cfg date_str) None st1 of
                                        (Inl e, st2) \<Rightarrow> (Inl e, st2)
                                      | (Inr upload_success, st2) \<Rightarrow>
                                          if upload_success
                                          then (Inr True,
                                                rmdir_tolerant day_dir
                                                  (cleanup_files day_dir
                                                     (files @ [''files.txt'', output_filename]) st2))
                                          else (Inr False, st2)))))"

text \<open>
  The paths handed to \<open>os.remove\<close> and the arguments of the upload requests
  (file path, title, description) in an event list, oldest first.
\<close>

fun removed :: "event \<Rightarrow> string list" where
  "removed (Remove p) = [p]"
| "removed e = []"

definition removes_of :: "event list \<Rightarrow> string list" where
  "removes_of es = concat (map removed es)"

fun inserted :: "event \<Rightarrow> (string \<times> string \<times> string) list" where
  "inserted (Insert p t d) = [(p, t, d)]"
| "inserted e = []"

definition inserts_of :: "event list \<Rightarrow> (string \<times> string \<times> string) list" where
  "inserts_of es = concat (map inserted es)"

section \<open>The scheduler: \<open>RPiCamScheduler\<close>\<close>












section \<open>Concrete configurations and environments\<close>

definition example_config :: config where
  "example_config =
     \<lparr>BASE_URL = ''http://camera/'', DATA_DIR = ''/data'', MAX_RETRIES = 3,
      YOUTUBE_UPLOAD_TITLE_PREFIX = ''RPiCam'',
      YOUTUBE_UPLOAD_DESCRIPTION = ''Uploaded by RPI-Cam-Web-Interface-Scraper'',
      DAILY_PROCESS_TIME = Some (23, 59)\<rparr>"

definition video001 :: tag where
  "video001 = \<lparr>links = [''media/video001.mp4''], delete_buttons = [Some ''thumb001''],
               text_of = ''26 MB 19s 2025-08-12 19:52:10''\<rparr>"

definition video002 :: tag where
  "video002 = \<lparr>links = [''media/video002.mp4''], delete_buttons = [Some ''thumb002''],
               text_of = ''30 MB 22s''\<rparr>"

definition meta001 :: video_meta where
  "meta001 = \<lparr>video = ''media/video001.mp4'', thumbnail = Some ''thumb001'',
              title = ''2025-08-12 19:52:10'', size_s = ''26 MB'', duration = ''19s'',
              date_s = ''2025-08-12'', time_s = ''19:52:10''\<rparr>"

definition meta002 :: video_meta where
  "meta002 = \<lparr>video = ''media/video002.mp4'', thumbnail = Some ''thumb002'',
              title = ''Unknown DateTime'', size_s = ''30 MB'', duration = ''22s'',
              date_s = [], time_s = []\<rparr>"

text \<open>
  A camera that serves the listing, refuses the three download attempts of the
  first video (requests 1 to 3) and answers 200 from then on.
\<close>

definition flaky_camera :: world where
  "flaky_camera =
     \<lparr>calls = 0,
      respond = (\<lambda>n. if n = 0 then Reply 200 else if n \<le> 3 then Reply 500 else Reply 200),
      pages = (\<lambda>n. [video001, video002]),
      disk_ok = (\<lambda>n. True),
      makedirs_ok = (\<lambda>p. True),
      events = []\<rparr>"

text \<open>A camera that answers every request with status 503.\<close>

definition dead_camera :: world where
  "dead_camera =
     \<lparr>calls = 0, respond = (\<lambda>n. Reply 503), pages = (\<lambda>n. []), disk_ok = (\<lambda>n. True),
      makedirs_ok = (\<lambda>p. True), events = []\<rparr>"

text \<open>
  A bucket with two clips, a merge executable that always exits with status 1
  and an upload service that accepts the first attempt.
\<close>

definition two_clips :: store where
  "two_clips =
     \<lparr>fs = [''/data/2025-08-12'' \<mapsto> Dir [''video2.mp4'', ''notes.txt'', ''video1.mp4'']],
      writable = (\<lambda>p. True),
      abspath = (\<lambda>p. p),
      ffmpeg_runs = 0,
      ffmpeg = (\<lambda>n. Exited 0),
      remove_ok = (\<lambda>p. True),
      youtube_service = False,
      auth_ok = True,
      media_ok = (\<lambda>p. True),
      uploads = 0,
      next_upload = (\<lambda>n. Uploaded),
      history = []\<rparr>"

definition broken_merge :: store where
  "broken_merge = two_clips\<lparr>ffmpeg := (\<lambda>n. Exited 1)\<rparr>"

text \<open>
  A listing entry with a valid media link whose \<open>delete1\<close> button has no
  \<open>value\<close> attribute, and a camera that serves it after \<open>video001\<close>.
\<close>

definition valueless_button :: tag where
  "valueless_button = \<lparr>links = [''media/video003.mp4''], delete_buttons = [None],
                        text_of = ''26 MB 19s 2025-08-12 19:52:10''\<rparr>"

definition odd_camera :: world where
  "odd_camera = flaky_camera\<lparr>pages := (\<lambda>n. [video001, valueless_button])\<rparr>"


definition rejecting_service :: store where
  "rejecting_service = two_clips\<lparr>next_upload := (\<lambda>n. Failed None)\<rparr>"

definition thirteen_retries :: config where
  "thirteen_retries = example_config\<lparr>MAX_RETRIES := 13\<rparr>"




text \<open>A bucket that holds no clip.\<close>

definition only_notes :: store where
  "only_notes = two_clips\<lparr>fs := [''/data/2025-08-12'' \<mapsto> Dir [''notes.txt'']]\<rparr>"



section \<open>Parsing listing entries\<close>

text \<open>
  What holds of the parser on every entry: it returns \<open>None\<close> exactly on the
  entries without a media link, and never raises on those; an entry with a media
  link and no \<open>delete1\<close> button, or one whose first such button has a value, is
  returned; the two scenarios of the specification evaluate as stated; and a
  text without a date or without a time gives the title \<open>Unknown DateTime\<close>.
\<close>

lemma parse_excludes_exactly_non_media:
  "parse_video_metadata fieldset = Inr None \<longleftrightarrow>
     (case links fieldset of [] \<Rightarrow> True | href # _ \<Rightarrow> \<not> media_href href)"
  by (simp add: parse_video_metadata_def split: list.splits option.splits)

lemma parse_retains_media_entry:
  assumes "links fieldset = href # others" and "media_href href"
    and "delete_buttons fieldset = [] \<or> (\<exists>v rest. delete_buttons fieldset = Some v # rest)"
  shows "\<exists>meta. parse_video_metadata fieldset = Inr (Some meta) \<and> video meta = href"
  using assms by (auto simp: parse_video_metadata_def build_meta_def Let_def split: list.splits option.splits)

lemma parse_scenario_full:
  "parse_video_metadata video001 = Inr (Some meta001)"
  by code_simp

lemma parse_scenario_no_datetime:
  "parse_video_metadata video002 = Inr (Some meta002)"
  by code_simp

lemma build_meta_unknown_datetime:
  assumes "re_search (fixed_at date_pattern) details = None \<or> re_search (fixed_at time_pattern) details = None"
  shows "title (build_meta href thumb details) = ''Unknown DateTime''"
  using assms by (auto simp: build_meta_def Let_def group_or_empty_def)

text \<open>
  Claim C9 at a failing input.  The claim has the parser keep exactly the
  entries whose link matches the media pattern.  An entry whose link matches
  and whose \<open>delete1\<close> button carries no \<open>value\<close> attribute is not kept: the
  parser raises \<open>KeyError\<close>, and \<open>fetch_video_list\<close> raises with it, losing the
  well-formed entry listed before it as well.
\<close>

theorem parse_raises_on_valueless_delete_button:
  "media_href ''media/video003.mp4''
   \<and> parse_video_metadata valueless_button = Inl KeyError
   \<and> fst (fetch_video_list example_config odd_camera) = Inl KeyError"
  by code_simp

section \<open>Fetching and purging\<close>

lemma delete_requests_emit [simp]:
  "delete_requests (emit e w) = delete_requests w @ posted e"
  by (simp add: delete_requests_def emit_def)

lemma delete_requests_sleep [simp]: "delete_requests (sleep n w) = delete_requests w"
  by (simp add: sleep_def)

lemma delete_requests_calls [simp]:
  "delete_requests (w\<lparr>calls := c\<rparr>) = delete_requests w"
  by (simp add: delete_requests_def)

lemma download_attempts_posts:
  "delete_requests (snd (download_attempts url p as w)) = delete_requests w"
  by (induction as arbitrary: w) (simp_all add: request_def)

lemma download_attempts_True:
  "fst (download_attempts url p as w) \<Longrightarrow>
     as \<noteq> [] \<and> Wrote p \<in> set (events (snd (download_attempts url p as w)))"
  by (induction as arbitrary: w) (auto simp: request_def emit_def split: if_splits)

lemma delete_attempts_posts:
  "BASE_URL cfg \<noteq> [] \<Longrightarrow>
     \<exists>k. delete_requests (snd (delete_attempts cfg h as w)) = delete_requests w @ replicate k h
        \<and> (0 < k \<longleftrightarrow> as \<noteq> [])"
proof (induction as arbitrary: w)
  case Nil
  then show ?case by simp
next
  case (Cons a as)
  obtain url where url: "preview_url cfg = Inr url"
    using Cons.prems by (simp add: preview_url_def)
  let ?w1 = "snd (request (Post url h) w)"
  show ?case
  proof (cases "fst (request (Post url h) w) = Reply 200")
    case True
    then have "delete_requests (snd (delete_attempts cfg h (a # as) w)) = delete_requests w @ replicate 1 h"
      using url by (simp add: request_def)
    then show ?thesis by (intro exI[of _ 1]) simp
  next
    case False
    from Cons.IH[OF Cons.prems, of "sleep (2 ^ a) ?w1"] obtain k where
      k: "delete_requests (snd (delete_attempts cfg h as (sleep (2 ^ a) ?w1))) =
            delete_requests (sleep (2 ^ a) ?w1) @ replicate k h" by blast
    have "delete_requests (snd (delete_attempts cfg h (a # as) w)) = delete_requests w @ replicate (Suc k) h"
      using url False k by (simp add: request_def replicate_append_same split: prod.splits)
    then show ?thesis by (intro exI[of _ "Suc k"]) simp
  qed
qed

lemma fetch_page_Some:
  "fst (fetch_page cfg as w) = Some soup \<Longrightarrow> BASE_URL cfg \<noteq> []"
  by (induction as arbitrary: w) (auto simp: preview_url_def)

lemma fetch_video_list_nonempty:
  "fst (fetch_video_list cfg w) = Inr (v # vs) \<Longrightarrow> BASE_URL cfg \<noteq> []"
proof -
  assume a: "fst (fetch_video_list cfg w) = Inr (v # vs)"
  obtain r w1 where f: "fetch_page cfg (py_range (MAX_RETRIES cfg)) w = (r, w1)"
    by (cases "fetch_page cfg (py_range (MAX_RETRIES cfg)) w")
  with a obtain soup where "r = Some soup"
    by (cases r) (simp_all add: fetch_video_list_def)
  with f have "fst (fetch_page cfg (py_range (MAX_RETRIES cfg)) w) = Some soup" by simp
  then show ?thesis by (rule fetch_page_Some)
qed


lemma clean_loop_append:
  "clean_loop cfg d (xs @ ys) w = clean_loop cfg d ys (clean_loop cfg d xs w)"
  by (induction xs arbitrary: w) simp_all

lemma process_record_posts:
  assumes base: "BASE_URL cfg \<noteq> []"
  shows "\<exists>posts. delete_requests (process_record cfg d meta w) = delete_requests w @ posts
           \<and> (posts \<noteq> [] \<longleftrightarrow> fst (download_video cfg meta d w) \<and> has_handle meta)
           \<and> (\<forall>h\<in>set posts. thumbnail meta = Some h)"
proof (cases "fst (download_video cfg meta d w)")
  case False
  then have "process_record cfg d meta w = snd (download_video cfg meta d w)"
    by (cases "download_video cfg meta d w") (simp add: process_record_def)
  then have "delete_requests (process_record cfg d meta w) = delete_requests w @ []"
    by (simp add: download_video_def download_attempts_posts)
  with False show ?thesis by (intro exI[of _ "[]"]) simp
next
  case True
  let ?wd = "snd (download_video cfg meta d w)"
  have pr: "process_record cfg d meta w = snd (delete_video_from_server cfg meta ?wd)"
    using True by (cases "download_video cfg meta d w") (simp add: process_record_def)
  have wd: "delete_requests ?wd = delete_requests w"
    by (simp add: download_video_def download_attempts_posts)
  have ne: "py_range (MAX_RETRIES cfg) \<noteq> []"
    using True download_attempts_True[of "video_url_of cfg meta" "local_path_of d meta" "py_range (MAX_RETRIES cfg)" w]
    by (simp add: download_video_def)
  show ?thesis
  proof (cases "has_handle meta")
    case False
    then have "delete_video_from_server cfg meta ?wd = (False, ?wd)"
      by (simp add: delete_video_from_server_def has_handle_def split: option.splits)
    with pr wd have "delete_requests (process_record cfg d meta w) = delete_requests w @ []"
      by simp
    with False show ?thesis by (intro exI[of _ "[]"]) simp
  next
    case hh: True
    then obtain h where th: "thumbnail meta = Some h" and hne: "h \<noteq> []"
      by (auto simp: has_handle_def split: option.splits)
    then have dv: "delete_video_from_server cfg meta ?wd =
                 delete_attempts cfg h (py_range (MAX_RETRIES cfg)) ?wd"
      by (simp add: delete_video_from_server_def)
    obtain k where
      k: "delete_requests (snd (delete_attempts cfg h (py_range (MAX_RETRIES cfg)) ?wd)) =
         delete_requests ?wd @ replicate k h" and kpos: "0 < k"
      using delete_attempts_posts[OF base, of h "py_range (MAX_RETRIES cfg)" ?wd] ne by blast
    have "delete_requests (process_record cfg d meta w) = delete_requests w @ replicate k h"
      using pr dv k wd by simp
    with True hh kpos th show ?thesis by (intro exI[of _ "replicate k h"]) simp
  qed
qed

text \<open>
  Claim C1.  Take any record \<open>meta\<close> of the listing that \<open>fetch_video_list\<close>
  returned, with \<open>pre\<close> the records before it and \<open>post\<close> those after it, and
  let \<open>w\<close> be the state in which the loop of \<open>fetch_and_clean\<close> reaches it.
  Unless \<open>os.makedirs\<close> raised (then nothing is downloaded or deleted), the run
  continues with the records of \<open>post\<close> from the state \<open>meta\<close> leaves behind,
  whatever happened to \<open>meta\<close>.  Processing \<open>meta\<close> posts deletion requests to
  the server if and only if its download returned \<open>True\<close> and its thumbnail is
  present (set and not empty); every request posted carries that thumbnail; and
  a download that returned \<open>True\<close> has written the local file.
\<close>

theorem fetch_and_clean_deletes_iff_downloaded:
  assumes listing: "fst (fetch_video_list cfg w0) = Inr (pre @ meta # post)"
  shows "(let w1 = snd (fetch_video_list cfg w0);
              day_dir = os_path_join (DATA_DIR cfg) today;
              w = clean_loop cfg day_dir pre (emit (Makedirs day_dir) w1);
              w' = process_record cfg day_dir meta w
          in (if makedirs_ok w1 day_dir
              then fetch_and_clean cfg today w0 = (Inr (), clean_loop cfg day_dir post w')
              else fetch_and_clean cfg today w0 = (Inl OSError, w1))
           \<and> (\<exists>posts. delete_requests w' = delete_requests w @ posts
                 \<and> (posts \<noteq> [] \<longleftrightarrow> fst (download_video cfg meta day_dir w) \<and> has_handle meta)
                 \<and> (\<forall>h\<in>set posts. thumbnail meta = Some h))
           \<and> (fst (download_video cfg meta day_dir w) \<longrightarrow>
                 Wrote (local_path_of day_dir meta) \<in> set (events (snd (download_video cfg meta day_dir w)))))"
proof -
  have base: "BASE_URL cfg \<noteq> []"
    using listing by (cases pre) (auto dest: fetch_video_list_nonempty)
  obtain w1 where f: "fetch_video_list cfg w0 = (Inr (pre @ meta # post), w1)"
    using listing by (cases "fetch_video_list cfg w0") simp
  let ?d = "os_path_join (DATA_DIR cfg) today"
  have run: "makedirs_ok w1 ?d \<Longrightarrow> fetch_and_clean cfg today w0 =
      (Inr (), clean_loop cfg ?d post (process_record cfg ?d meta
          (clean_loop cfg ?d pre (emit (Makedirs ?d) w1))))"
    using f by (simp add: fetch_and_clean_def clean_loop_append Let_def)
  have stop: "\<not> makedirs_ok w1 ?d \<Longrightarrow> fetch_and_clean cfg today w0 = (Inl OSError, w1)"
    using f by (simp add: fetch_and_clean_def Let_def)
  have w1: "snd (fetch_video_list cfg w0) = w1" using f by simp
  let ?w = "clean_loop cfg ?d pre (emit (Makedirs ?d) w1)"
  have a: "if makedirs_ok w1 ?d
           then fetch_and_clean cfg today w0 = (Inr (), clean_loop cfg ?d post (process_record cfg ?d meta ?w))
           else fetch_and_clean cfg today w0 = (Inl OSError, w1)"
    using run stop by simp
  have b: "fst (download_video cfg meta ?d ?w) \<longrightarrow>
             Wrote (local_path_of ?d meta) \<in> set (events (snd (download_video cfg meta ?d ?w)))"
    unfolding download_video_def using download_attempts_True by blast
  show ?thesis
    unfolding Let_def w1 using a b process_record_posts[OF base, of ?d meta ?w] by blast
qed

theorem fetch_and_clean_deletes_iff_downloaded_witness:
  "fst (fetch_video_list example_config flaky_camera) = Inr ([] @ meta001 # [meta002])
   \<and> \<not> fst (download_video example_config meta001 ''/data/2025-08-12''
              (emit (Makedirs ''/data/2025-08-12'') (snd (fetch_video_list example_config flaky_camera))))
   \<and> delete_requests (process_record example_config ''/data/2025-08-12'' meta001
              (emit (Makedirs ''/data/2025-08-12'') (snd (fetch_video_list example_config flaky_camera)))) = []
   \<and> delete_requests (snd (fetch_and_clean example_config ''2025-08-12'' flaky_camera)) = [''thumb002'']"
proof -
  have h: "fst (fetch_video_list example_config flaky_camera) = Inr ([] @ meta001 # [meta002])"
    by code_simp
  have d: "os_path_join (DATA_DIR example_config) ''2025-08-12'' = ''/data/2025-08-12''"
    by code_simp
  have nd: "\<not> fst (download_video example_config meta001 ''/data/2025-08-12''
              (emit (Makedirs ''/data/2025-08-12'') (snd (fetch_video_list example_config flaky_camera))))"
    by code_simp
  have e: "delete_requests (emit (Makedirs ''/data/2025-08-12'') (snd (fetch_video_list example_config flaky_camera))) = []"
    by code_simp
  have r: "delete_requests (snd (fetch_and_clean example_config ''2025-08-12'' flaky_camera)) = [''thumb002'']"
    by code_simp
  from fetch_and_clean_deletes_iff_downloaded[OF h, of "''2025-08-12''"]
  have "delete_requests (process_record example_config ''/data/2025-08-12'' meta001
              (emit (Makedirs ''/data/2025-08-12'') (snd (fetch_video_list example_config flaky_camera)))) = []"
    unfolding Let_def d using nd e by auto
  with h nd r show ?thesis by simp
qed

section \<open>Retry loops\<close>

lemma fetch_page_all_fail:
  assumes url: "preview_url cfg = Inr url"
    and fail: "\<forall>n. respond w n \<noteq> Reply 200"
  shows "fst (fetch_page cfg as w) = None
       \<and> events (snd (fetch_page cfg as w)) = events w @ concat (map (\<lambda>i. [Get url, Sleep (2 ^ i)]) as)"
  using fail
proof (induction as arbitrary: w)
  case Nil
  then show ?case by simp
next
  case (Cons a as)
  let ?w1 = "sleep (2 ^ a) (snd (request (Get url) w))"
  have r: "respond ?w1 = respond w" by (simp add: sleep_def emit_def request_def)
  have step: "fetch_page cfg (a # as) w = fetch_page cfg as ?w1"
    using url Cons.prems by (simp add: request_def)
  have ev: "events ?w1 = events w @ [Get url, Sleep (2 ^ a)]"
    by (simp add: sleep_def emit_def request_def)
  from Cons.IH[of ?w1] r Cons.prems
  have "fst (fetch_page cfg as ?w1) = None
      \<and> events (snd (fetch_page cfg as ?w1)) = events ?w1 @ concat (map (\<lambda>i. [Get url, Sleep (2 ^ i)]) as)"
    by simp
  then show ?case unfolding step ev by simp
qed

lemma concat_attempts_all_fail:
  assumes fail: "\<forall>n. ffmpeg st n \<noteq> Exited 0"
  shows "\<not> fst (concat_attempts l d out as st)
       \<and> history (snd (concat_attempts l d out as st)) =
           history st @ concat (map (\<lambda>i. [Ffmpeg l (os_path_join d out), Sleep (2 ^ i)]) as)
       \<and> fs (snd (concat_attempts l d out as st)) = fs st"
  using fail
proof (induction as arbitrary: st)
  case Nil
  then show ?case by simp
next
  case (Cons a as)
  let ?st1 = "record_event (Sleep (2 ^ a)) (record_event (Ffmpeg l (os_path_join d out))
                  (st\<lparr>ffmpeg_runs := Suc (ffmpeg_runs st)\<rparr>))"
  have r: "ffmpeg ?st1 = ffmpeg st" "fs ?st1 = fs st" by (simp_all add: record_event_def)
  have step: "concat_attempts l d out (a # as) st = concat_attempts l d out as ?st1"
    using Cons.prems by (simp add: Let_def)
  have ev: "history ?st1 = history st @ [Ffmpeg l (os_path_join d out), Sleep (2 ^ a)]"
    by (simp add: record_event_def)
  from Cons.IH[of ?st1] r Cons.prems
  have "\<not> fst (concat_attempts l d out as ?st1)
      \<and> history (snd (concat_attempts l d out as ?st1)) =
           history ?st1 @ concat (map (\<lambda>i. [Ffmpeg l (os_path_join d out), Sleep (2 ^ i)]) as)
      \<and> fs (snd (concat_attempts l d out as ?st1)) = fs st"
    by simp
  then show ?case unfolding step ev by simp
qed

lemma py_range_3: "py_range 3 = [0, 1, 2]"
  by (simp add: py_range_def upt_rec)

text \<open>
  Claim C4, as amended.  With \<open>MAX_RETRIES = 3\<close> and an operation that fails on
  every attempt, the retry loop of \<open>fetch_video_list\<close> and the retry loop of
  \<open>concatenate_videos\<close> each make exactly three attempts and sleep exactly three
  times, once after every failed attempt, the last included: 1 second after the
  first attempt, 2 after the second and 4 after the third, that is
  \<open>2 ^ i\<close> after attempt \<open>i\<close> counted from 0.
\<close>

theorem retry_three_attempts_three_sleeps:
  assumes n: "MAX_RETRIES cfg = 3"
    and url: "preview_url cfg = Inr url"
    and web: "\<forall>n. respond w n \<noteq> Reply 200"
    and merge: "\<forall>n. ffmpeg st n \<noteq> Exited 0"
  shows "fst (fetch_video_list cfg w) = Inr []
       \<and> events (snd (fetch_video_list cfg w)) =
           events w @ [Get url, Sleep 1, Get url, Sleep 2, Get url, Sleep 4]
       \<and> \<not> fst (concat_attempts l d out (py_range (MAX_RETRIES cfg)) st)
       \<and> history (snd (concat_attempts l d out (py_range (MAX_RETRIES cfg)) st)) =
           history st @ [Ffmpeg l (os_path_join d out), Sleep 1,
                         Ffmpeg l (os_path_join d out), Sleep 2,
                         Ffmpeg l (os_path_join d out), Sleep 4]"
proof -
  obtain r w1 where f: "fetch_page cfg [0, 1, 2] w = (r, w1)"
    by (cases "fetch_page cfg [0, 1, 2] w")
  from fetch_page_all_fail[OF url web, of "[0, 1, 2]"] f
  have "r = None" and "events w1 = events w @ [Get url, Sleep 1, Get url, Sleep 2, Get url, Sleep 4]"
    by simp_all
  then have a: "fst (fetch_video_list cfg w) = Inr []
       \<and> events (snd (fetch_video_list cfg w)) =
           events w @ [Get url, Sleep 1, Get url, Sleep 2, Get url, Sleep 4]"
    using f by (simp add: fetch_video_list_def n py_range_3)
  from concat_attempts_all_fail[OF merge, of l d out "[0, 1, 2]"]
  have b: "\<not> fst (concat_attempts l d out (py_range (MAX_RETRIES cfg)) st)
       \<and> history (snd (concat_attempts l d out (py_range (MAX_RETRIES cfg)) st)) =
           history st @ [Ffmpeg l (os_path_join d out), Sleep 1,
                         Ffmpeg l (os_path_join d out), Sleep 2,
                         Ffmpeg l (os_path_join d out), Sleep 4]"
    by (simp add: n py_range_3)
  from a b show ?thesis by simp
qed


text \<open>
  Claim C4 as stated fails: with three attempts allowed, a camera that always
  answers 503 and a merge that always exits with status 1 make both loops sleep
  three times, not twice; the third sleep follows the third attempt.
\<close>

theorem retry_sleeps_after_last_attempt:
  "MAX_RETRIES example_config = 3
   \<and> sleeps_of (events (snd (fetch_video_list example_config dead_camera))) = [1, 2, 4]
   \<and> length (sleeps_of (events (snd (fetch_video_list example_config dead_camera)))) \<noteq> 2
   \<and> sleeps_of (history (snd (concatenate_videos example_config ''/data/2025-08-12''
        [''video1.mp4'', ''video2.mp4''] ''2025-08-12_combined.mp4'' broken_merge))) = [1, 2, 4]"
  by code_simp

theorem retry_three_attempts_three_sleeps_witness:
  "MAX_RETRIES example_config = 3
   \<and> preview_url example_config = Inr ''http://camera/preview.php''
   \<and> (\<forall>n. respond dead_camera n \<noteq> Reply 200)
   \<and> (\<forall>n. ffmpeg broken_merge n \<noteq> Exited 0)
   \<and> events (snd (fetch_video_list example_config dead_camera)) =
        [Get ''http://camera/preview.php'', Sleep 1, Get ''http://camera/preview.php'', Sleep 2,
         Get ''http://camera/preview.php'', Sleep 4]
   \<and> history (snd (concat_attempts ''/data/2025-08-12/files.txt'' ''/data/2025-08-12'' ''out.mp4''
        (py_range (MAX_RETRIES example_config)) broken_merge)) =
        [Ffmpeg ''/data/2025-08-12/files.txt'' ''/data/2025-08-12/out.mp4'', Sleep 1,
         Ffmpeg ''/data/2025-08-12/files.txt'' ''/data/2025-08-12/out.mp4'', Sleep 2,
         Ffmpeg ''/data/2025-08-12/files.txt'' ''/data/2025-08-12/out.mp4'', Sleep 4]"
proof -
  have n: "MAX_RETRIES example_config = 3" by (simp add: example_config_def)
  have url: "preview_url example_config = Inr ''http://camera/preview.php''" by code_simp
  have web: "\<forall>n. respond dead_camera n \<noteq> Reply 200" by (simp add: dead_camera_def)
  have merge: "\<forall>n. ffmpeg broken_merge n \<noteq> Exited 0" by (simp add: broken_merge_def two_clips_def)
  have e: "events dead_camera = []" by (simp add: dead_camera_def)
  have h: "history broken_merge = []" by (simp add: broken_merge_def two_clips_def)
  have j: "os_path_join ''/data/2025-08-12'' ''out.mp4'' = ''/data/2025-08-12/out.mp4''" by code_simp
  from retry_three_attempts_three_sleeps[OF n url web merge,
         of "''/data/2025-08-12/files.txt''" "''/data/2025-08-12''" "''out.mp4''"]
  show ?thesis using n url web merge e h j by simp
qed

section \<open>Publishing\<close>

lemma upload_attempts_frame:
  "snd (upload_attempts p t d as st) =
     st\<lparr>uploads := uploads (snd (upload_attempts p t d as st)),
        history := history (snd (upload_attempts p t d as st))\<rparr>"
proof (induction as arbitrary: st)
  case Nil
  show ?case by simp
next
  case (Cons a as)
  show ?case
  proof (cases "next_upload st (uploads st)")
    case Uploaded
    then show ?thesis by (simp add: Let_def record_event_def)
  next
    case (Failed status)
    let ?st2 = "record_event (Sleep (backoff status a))
                  (record_event (Insert p t d) (st\<lparr>uploads := Suc (uploads st)\<rparr>))"
    have step: "upload_attempts p t d (a # as) st = upload_attempts p t d as ?st2"
      using Failed by (simp add: Let_def)
    have "snd (upload_attempts p t d as ?st2) =
            ?st2\<lparr>uploads := uploads (snd (upload_attempts p t d as ?st2)),
                 history := history (snd (upload_attempts p t d as ?st2))\<rparr>"
      by (rule Cons.IH)
    also have "\<dots> = st\<lparr>uploads := uploads (snd (upload_attempts p t d as ?st2)),
                      history := history (snd (upload_attempts p t d as ?st2))\<rparr>"
      by (simp add: record_event_def)
    finally show ?thesis unfolding step .
  qed
qed

lemma upload_attempts_count:
  "uploads st \<le> uploads (snd (upload_attempts p t d as st))
   \<and> uploads (snd (upload_attempts p t d as st)) \<le> uploads st + length as
   \<and> (\<not> fst (upload_attempts p t d as st) \<longrightarrow>
        uploads (snd (upload_attempts p t d as st)) = uploads st + length as)"
proof (induction as arbitrary: st)
  case Nil
  show ?case by simp
next
  case (Cons a as)
  show ?case
  proof (cases "next_upload st (uploads st)")
    case Uploaded
    then show ?thesis by (simp add: Let_def record_event_def)
  next
    case (Failed status)
    let ?st2 = "record_event (Sleep (backoff status a))
                  (record_event (Insert p t d) (st\<lparr>uploads := Suc (uploads st)\<rparr>))"
    have step: "upload_attempts p t d (a # as) st = upload_attempts p t d as ?st2"
      using Failed by (simp add: Let_def)
    have u2: "uploads ?st2 = Suc (uploads st)" by (simp add: record_event_def)
    from Cons.IH[of ?st2] show ?thesis unfolding step u2 by simp
  qed
qed

lemma upload_attempts_success_iff:
  "fst (upload_attempts p t d as st) \<longleftrightarrow>
     (\<exists>n. uploads st \<le> n \<and> n < uploads (snd (upload_attempts p t d as st))
          \<and> next_upload st n = Uploaded)"
proof (induction as arbitrary: st)
  case Nil
  show ?case by simp
next
  case (Cons a as)
  show ?case
  proof (cases "next_upload st (uploads st)")
    case Uploaded
    then have "fst (upload_attempts p t d (a # as) st)"
      and "uploads (snd (upload_attempts p t d (a # as) st)) = Suc (uploads st)"
      by (simp_all add: Let_def record_event_def)
    with Uploaded show ?thesis by (intro iffI exI[of _ "uploads st"]) simp_all
  next
    case (Failed status)
    let ?st2 = "record_event (Sleep (backoff status a))
                  (record_event (Insert p t d) (st\<lparr>uploads := Suc (uploads st)\<rparr>))"
    let ?U = "uploads (snd (upload_attempts p t d as ?st2))"
    have step: "upload_attempts p t d (a # as) st = upload_attempts p t d as ?st2"
      using Failed by (simp add: Let_def)
    have u2: "uploads ?st2 = Suc (uploads st)" and n2: "next_upload ?st2 = next_upload st"
      by (simp_all add: record_event_def)
    have ih: "fst (upload_attempts p t d as ?st2) \<longleftrightarrow>
                (\<exists>n. Suc (uploads st) \<le> n \<and> n < ?U \<and> next_upload st n = Uploaded)"
      using Cons.IH[of ?st2] unfolding u2 n2 .
    have "(\<exists>n. Suc (uploads st) \<le> n \<and> n < ?U \<and> next_upload st n = Uploaded) \<longleftrightarrow>
          (\<exists>n. uploads st \<le> n \<and> n < ?U \<and> next_upload st n = Uploaded)"
    proof
      assume "\<exists>n. Suc (uploads st) \<le> n \<and> n < ?U \<and> next_upload st n = Uploaded"
      then obtain n where "Suc (uploads st) \<le> n" "n < ?U" "next_upload st n = Uploaded" by blast
      then show "\<exists>n. uploads st \<le> n \<and> n < ?U \<and> next_upload st n = Uploaded"
        by (intro exI[of _ n]) simp
    next
      assume "\<exists>n. uploads st \<le> n \<and> n < ?U \<and> next_upload st n = Uploaded"
      then obtain n where n: "uploads st \<le> n" "n < ?U" "next_upload st n = Uploaded" by blast
      have "n \<noteq> uploads st" using n(3) Failed by auto
      with n show "\<exists>n. Suc (uploads st) \<le> n \<and> n < ?U \<and> next_upload st n = Uploaded"
        by (intro exI[of _ n]) simp
    qed
    with ih show ?thesis unfolding step by simp
  qed
qed






text \<open>
  Claim C6, as amended.  A failed attempt with status 403 is followed by a sleep
  of 3600 seconds, whatever the attempt number; any other failure by a sleep of
  \<open>2 ^ attempt\<close>; and the loop goes on with the remaining attempts after that
  sleep.  The cooldown is longer than the standard backoff of every attempt
  numbered 11 or less, hence of every attempt when \<open>MAX_RETRIES \<le> 12\<close>.
\<close>

theorem failed_upload_backoff:
  "backoff (Some 403) attempt = 3600
   \<and> (status \<noteq> Some 403 \<longrightarrow> backoff status attempt = 2 ^ attempt)
   \<and> (next_upload st (uploads st) = Failed status \<longrightarrow>
        upload_attempts p t d (attempt # rest) st =
          upload_attempts p t d rest
            (record_event (Sleep (backoff status attempt))
               (record_event (Insert p t d) (st\<lparr>uploads := Suc (uploads st)\<rparr>))))
   \<and> (attempt \<le> 11 \<and> status \<noteq> Some 403 \<longrightarrow>
        backoff status attempt < backoff (Some 403) other_attempt)"
proof -
  have "attempt \<le> 11 \<Longrightarrow> (2::nat) ^ attempt < 3600"
  proof -
    assume "attempt \<le> 11"
    then have "(2::nat) ^ attempt \<le> 2 ^ 11" by (intro power_increasing) simp_all
    then show ?thesis by simp
  qed
  then show ?thesis by (simp add: backoff_def Let_def)
qed

text \<open>
  Claim C6 as stated fails: \<open>MAX_RETRIES\<close> is read from the environment, and
  with 13 attempts the standard backoff after the last one is 4096 seconds,
  longer than the cooldown of 3600.
\<close>

theorem generic_backoff_exceeds_cooldown:
  "12 \<in> set (py_range (MAX_RETRIES thirteen_retries))
   \<and> backoff None 12 = 4096
   \<and> backoff (Some 403) 12 = 3600
   \<and> \<not> backoff None 12 < backoff (Some 403) 12
   \<and> last (sleeps_of (history (snd (upload_video thirteen_retries
        ''/data/2025-08-12/2025-08-12_combined.mp4'' ''RPiCam 2025-08-12'' None rejecting_service)))) = 4096"
  by code_simp

theorem failed_upload_backoff_witness:
  "next_upload rejecting_service (uploads rejecting_service) = Failed None
   \<and> (2::nat) \<le> 11 \<and> None \<noteq> Some (403::int)
   \<and> backoff None 2 = 4 \<and> backoff None 2 < backoff (Some 403) 0
   \<and> fst (upload_attempts ''a.mp4'' ''t'' ''d'' [2] rejecting_service) = False"
proof -
  have f: "next_upload rejecting_service (uploads rejecting_service) = Failed None"
    by code_simp
  have e: "fst (upload_attempts ''a.mp4'' ''t'' ''d'' [] (record_event (Sleep (backoff None 2))
               (record_event (Insert ''a.mp4'' ''t'' ''d'')
                 (rejecting_service\<lparr>uploads := Suc (uploads rejecting_service)\<rparr>)))) = False"
    by simp
  from failed_upload_backoff[of 2 None rejecting_service "''a.mp4''" "''t''" "''d''" "[]" 0]
  show ?thesis using f e by simp
qed

section \<open>Scheduling the daily pipeline\<close>






section \<open>The daily pipeline\<close>

lemma endswith_append: "endswith (a @ p) p"
  by (simp add: endswith_def)

text \<open>
  Claim C7.  When the day-bucket directory of the date is absent, or is a
  directory that lists no name ending in \<open>.mp4\<close>, \<open>process_daily_videos\<close>
  returns \<open>False\<close> and leaves the whole state as it was: the file system is
  unchanged, no manifest is written, no merge is run, nothing is uploaded and
  nothing is deleted.
\<close>

theorem process_daily_videos_nothing_to_do:
  assumes "day_dir = os_path_join (DATA_DIR cfg) (case date_arg of None \<Rightarrow> today | Some d \<Rightarrow> d)"
    and "fs st day_dir = None
         \<or> (\<exists>names. fs st day_dir = Some (Dir names) \<and> filter (\<lambda>f. endswith f ''.mp4'') names = [])"
  shows "process_daily_videos cfg today date_arg st = (Inr False, st)"
  using assms
  by (auto simp: process_daily_videos_def Let_def path_exists_def get_video_files_def listdir_def)

theorem process_daily_videos_nothing_to_do_witness:
  "fs two_clips (os_path_join (DATA_DIR example_config) ''2025-08-13'') = None
   \<and> process_daily_videos example_config ''2025-08-13'' None two_clips = (Inr False, two_clips)
   \<and> fs only_notes (os_path_join (DATA_DIR example_config) ''2025-08-12'') = Some (Dir [''notes.txt''])
   \<and> filter (\<lambda>f. endswith f ''.mp4'') [''notes.txt''] = []
   \<and> process_daily_videos example_config ''2025-08-13'' (Some ''2025-08-12'') only_notes = (Inr False, only_notes)"
proof -
  have a: "fs two_clips (os_path_join (DATA_DIR example_config) ''2025-08-13'') = None"
    by code_simp
  have b: "fs only_notes (os_path_join (DATA_DIR example_config) ''2025-08-12'') = Some (Dir [''notes.txt''])"
    by code_simp
  have c: "filter (\<lambda>f. endswith f ''.mp4'') [''notes.txt''] = []"
    by code_simp
  have "process_daily_videos example_config ''2025-08-13'' None two_clips = (Inr False, two_clips)"
    using process_daily_videos_nothing_to_do[where cfg = example_config and date_arg = None
            and today = "''2025-08-13''" and st = two_clips, OF refl] a
    by simp
  moreover have "process_daily_videos example_config ''2025-08-13'' (Some ''2025-08-12'') only_notes = (Inr False, only_notes)"
    using process_daily_videos_nothing_to_do[where cfg = example_config and date_arg = "Some ''2025-08-12''"
            and today = "''2025-08-13''" and st = only_notes, OF refl] b c
    by simp
  ultimately show ?thesis using a b c by simp
qed

lemma add_file_frame: "add_file d n st = st\<lparr>fs := fs (add_file d n st)\<rparr>"
  by (simp add: add_file_def split: option.splits node.splits)

lemma add_file_listing:
  "fs st d = Some (Dir names) \<Longrightarrow>
     fs (add_file d n st) = (fs st)(d \<mapsto> Dir (if n \<in> set names then names else names @ [n]))"
  by (auto simp: add_file_def)

lemma concat_attempts_frame:
  "snd (concat_attempts l d out as st) =
     st\<lparr>fs := (if fst (concat_attempts l d out as st) then fs (add_file d out st) else fs st),
        ffmpeg_runs := ffmpeg_runs (snd (concat_attempts l d out as st)),
        history := history (snd (concat_attempts l d out as st))\<rparr>"
proof (induction as arbitrary: st)
  case Nil
  show ?case by simp
next
  case (Cons a as)
  let ?st1 = "record_event (Ffmpeg l (os_path_join d out)) (st\<lparr>ffmpeg_runs := Suc (ffmpeg_runs st)\<rparr>)"
  show ?case
  proof (cases "ffmpeg st (ffmpeg_runs st) = Exited 0")
    case True
    have "add_file d out ?st1 = ?st1\<lparr>fs := fs (add_file d out st)\<rparr>"
      by (simp add: add_file_def record_event_def split: option.splits node.splits)
    with True show ?thesis by (simp add: Let_def record_event_def)
  next
    case False
    let ?st2 = "record_event (Sleep (2 ^ a)) ?st1"
    have step: "concat_attempts l d out (a # as) st = concat_attempts l d out as ?st2"
      using False by (simp add: Let_def)
    have f2: "fs (add_file d out ?st2) = fs (add_file d out st)" "fs ?st2 = fs st"
      by (simp_all add: add_file_def record_event_def split: option.splits node.splits)
    have "snd (concat_attempts l d out as ?st2) =
            ?st2\<lparr>fs := (if fst (concat_attempts l d out as ?st2) then fs (add_file d out ?st2) else fs ?st2),
                 ffmpeg_runs := ffmpeg_runs (snd (concat_attempts l d out as ?st2)),
                 history := history (snd (concat_attempts l d out as ?st2))\<rparr>"
      by (rule Cons.IH)
    also have "\<dots> = st\<lparr>fs := (if fst (concat_attempts l d out as ?st2) then fs (add_file d out st) else fs st),
                 ffmpeg_runs := ffmpeg_runs (snd (concat_attempts l d out as ?st2)),
                 history := history (snd (concat_attempts l d out as ?st2))\<rparr>"
      unfolding f2 by (simp add: record_event_def)
    finally show ?thesis unfolding step .
  qed
qed

lemma concat_attempts_history:
  "set (history st) \<subseteq> set (history (snd (concat_attempts l d out as st)))"
proof (induction as arbitrary: st)
  case Nil
  show ?case by simp
next
  case (Cons a as)
  let ?st2 = "record_event (Sleep (2 ^ a)) (record_event (Ffmpeg l (os_path_join d out))
                 (st\<lparr>ffmpeg_runs := Suc (ffmpeg_runs st)\<rparr>))"
  show ?case
  proof (cases "ffmpeg st (ffmpeg_runs st) = Exited 0")
    case True
    then show ?thesis
      by (auto simp: Let_def record_event_def add_file_def split: option.splits node.splits)
  next
    case False
    then have step: "concat_attempts l d out (a # as) st = concat_attempts l d out as ?st2"
      by (simp add: Let_def)
    have "set (history st) \<subseteq> set (history ?st2)" by (auto simp: record_event_def)
    with Cons.IH[of ?st2] show ?thesis unfolding step by blast
  qed
qed

lemma upload_attempts_history:
  "set (history st) \<subseteq> set (history (snd (upload_attempts p t d as st)))"
proof (induction as arbitrary: st)
  case Nil
  show ?case by simp
next
  case (Cons a as)
  show ?case
  proof (cases "next_upload st (uploads st)")
    case Uploaded
    then show ?thesis by (auto simp: Let_def record_event_def)
  next
    case (Failed status)
    let ?st2 = "record_event (Sleep (backoff status a))
                  (record_event (Insert p t d) (st\<lparr>uploads := Suc (uploads st)\<rparr>))"
    have step: "upload_attempts p t d (a # as) st = upload_attempts p t d as ?st2"
      using Failed by (simp add: Let_def)
    have "set (history st) \<subseteq> set (history ?st2)" by (auto simp: record_event_def)
    with Cons.IH[of ?st2] show ?thesis unfolding step by blast
  qed
qed

lemma upload_attempts_fields:
  "fs (snd (upload_attempts p t d as st)) = fs st"
  "remove_ok (snd (upload_attempts p t d as st)) = remove_ok st"
  "next_upload (snd (upload_attempts p t d as st)) = next_upload st"
  "writable (snd (upload_attempts p t d as st)) = writable st"
  "youtube_service (snd (upload_attempts p t d as st)) = youtube_service st"
  by (subst upload_attempts_frame, simp)+

lemma upload_video_fields:
  "fs (snd (upload_video cfg p t descr st)) = fs st"
  "remove_ok (snd (upload_video cfg p t descr st)) = remove_ok st"
  "next_upload (snd (upload_video cfg p t descr st)) = next_upload st"
  "writable (snd (upload_video cfg p t descr st)) = writable st"
  by (auto simp: upload_video_def get_authenticated_service_def record_event_def
        upload_attempts_fields split: prod.splits sum.splits if_splits
        dest!: arg_cong[where f = snd])

lemma cleanup_step_fields:
  "remove_ok (cleanup_step d f st) = remove_ok st"
  "uploads (cleanup_step d f st) = uploads st"
  "next_upload (cleanup_step d f st) = next_upload st"
  by (simp_all add: cleanup_step_def remove_file_def record_event_def Let_def
        split: option.splits node.splits)



lemma cleanup_files_fields:
  "remove_ok (cleanup_files d targets st) = remove_ok st"
  "uploads (cleanup_files d targets st) = uploads st"
  "next_upload (cleanup_files d targets st) = next_upload st"
proof (induction targets arbitrary: st)
  case Nil
  { case 1 show ?case by simp next
    case 2 show ?case by simp next
    case 3 show ?case by simp }
next
  case (Cons f rest)
  { case 1 show ?case unfolding cleanup_files.simps Cons.IH(1) by (rule cleanup_step_fields) next
    case 2 show ?case unfolding cleanup_files.simps Cons.IH(2) by (rule cleanup_step_fields) next
    case 3 show ?case unfolding cleanup_files.simps Cons.IH(3) by (rule cleanup_step_fields) }
qed



lemma upload_video_success_iff:
  "fst (upload_video cfg p t descr st) = Inr True \<longleftrightarrow>
     (\<exists>n. uploads st \<le> n \<and> n < uploads (snd (upload_video cfg p t descr st))
          \<and> next_upload st n = Uploaded)"
proof -
  let ?d = "description_or_default cfg descr"
  let ?as = "py_range (MAX_RETRIES cfg)"
  let ?s1 = "record_event Authenticate (st\<lparr>youtube_service := True\<rparr>)"
  have s1: "uploads ?s1 = uploads st" "next_upload ?s1 = next_upload st" "media_ok ?s1 = media_ok st"
    by (simp_all add: record_event_def)
  consider (a) "youtube_service st" "media_ok st p"
    | (b) "\<not> youtube_service st" "auth_ok st" "media_ok st p"
    | (c) "\<not> youtube_service st" "\<not> auth_ok st"
    | (d) "youtube_service st" "\<not> media_ok st p"
    | (e) "\<not> youtube_service st" "auth_ok st" "\<not> media_ok st p"
    by blast
  then show ?thesis
  proof cases
    case a
    then have "upload_video cfg p t descr st =
        (Inr (fst (upload_attempts p t ?d ?as st)), snd (upload_attempts p t ?d ?as st))"
      by (simp add: upload_video_def split: prod.splits)
    then show ?thesis using upload_attempts_success_iff[of p t ?d ?as st] by simp
  next
    case b
    then have "upload_video cfg p t descr st =
        (Inr (fst (upload_attempts p t ?d ?as ?s1)), snd (upload_attempts p t ?d ?as ?s1))"
      by (simp add: upload_video_def get_authenticated_service_def s1 split: prod.splits)
    then show ?thesis using upload_attempts_success_iff[of p t ?d ?as ?s1] unfolding s1 by simp
  next
    case c
    then show ?thesis by (simp add: upload_video_def get_authenticated_service_def)
  next
    case d
    then show ?thesis by (simp add: upload_video_def)
  next
    case e
    then show ?thesis by (simp add: upload_video_def get_authenticated_service_def s1)
  qed
qed

lemma concat_attempts_fields:
  "uploads (snd (concat_attempts l d out as st)) = uploads st"
  "next_upload (snd (concat_attempts l d out as st)) = next_upload st"
  "remove_ok (snd (concat_attempts l d out as st)) = remove_ok st"
  "writable (snd (concat_attempts l d out as st)) = writable st"
  by (subst concat_attempts_frame, simp)+

lemma process_daily_videos_cases:
  "process_daily_videos cfg today date_arg st =
     (let date_str = (case date_arg of None \<Rightarrow> today | Some d \<Rightarrow> d);
          day_dir = os_path_join (DATA_DIR cfg) date_str;
          out = output_filename_of date_str
      in case fs st day_dir of
           None \<Rightarrow> (Inr False, st)
         | Some File \<Rightarrow> (Inl NotADirectoryError, st)
         | Some (Dir names) \<Rightarrow>
             (let files = sort (filter (\<lambda>f. endswith f ''.mp4'') names);
                  list_path = os_path_join day_dir ''files.txt'';
                  stM = record_event (Manifest list_path (map (manifest_line st day_dir) files))
                          (add_file day_dir ''files.txt'' st);
                  merge = concat_attempts list_path day_dir out (py_range (MAX_RETRIES cfg)) stM;
                  upload = upload_video cfg (os_path_join day_dir out) (title_of cfg date_str) None (snd merge)
              in if files = [] then (Inr False, st)
                 else if \<not> writable st list_path then (Inl OSError, st)
                 else if \<not> fst merge then (Inr False, snd merge)
                 else (case fst upload of
                         Inl e \<Rightarrow> (Inl e, snd upload)
                       | Inr ok \<Rightarrow>
                           if ok
                           then (Inr True,
                                 rmdir_tolerant day_dir
                                   (cleanup_files day_dir (files @ [''files.txt'', out]) (snd upload)))
                           else (Inr False, snd upload))))"
  by (simp add: process_daily_videos_def Let_def path_exists_def get_video_files_def listdir_def
        concatenate_videos_def create_ffmpeg_file_list_def
        split: option.splits node.splits prod.splits sum.splits)

lemma removes_of_record_event [simp]:
  "removes_of (history (record_event e st)) = removes_of (history st) @ removed e"
  by (simp add: removes_of_def record_event_def)

lemma inserts_of_record_event [simp]:
  "inserts_of (history (record_event e st)) = inserts_of (history st) @ inserted e"
  by (simp add: inserts_of_def record_event_def)

lemma history_add_file [simp]: "history (add_file d n st) = history st"
  by (subst add_file_frame) simp

lemma history_remove_file [simp]: "history (remove_file d n st) = history st"
  by (simp add: remove_file_def split: option.splits node.splits)

lemma concat_attempts_logs:
  "removes_of (history (snd (concat_attempts l d out as st))) = removes_of (history st)
   \<and> inserts_of (history (snd (concat_attempts l d out as st))) = inserts_of (history st)"
proof (induction as arbitrary: st)
  case Nil
  show ?case by simp
next
  case (Cons a as)
  let ?st1 = "record_event (Ffmpeg l (os_path_join d out)) (st\<lparr>ffmpeg_runs := Suc (ffmpeg_runs st)\<rparr>)"
  have h1: "removes_of (history ?st1) = removes_of (history st)"
           "inserts_of (history ?st1) = inserts_of (history st)"
    by (simp_all add: record_event_def removes_of_def inserts_of_def)
  show ?case
  proof (cases "ffmpeg st (ffmpeg_runs st) = Exited 0")
    case True
    then show ?thesis using h1 by (simp add: Let_def)
  next
    case False
    let ?st2 = "record_event (Sleep (2 ^ a)) ?st1"
    have step: "concat_attempts l d out (a # as) st = concat_attempts l d out as ?st2"
      using False by (simp add: Let_def)
    have h2: "removes_of (history ?st2) = removes_of (history st)"
             "inserts_of (history ?st2) = inserts_of (history st)"
      using h1 by simp_all
    show ?thesis unfolding step using Cons.IH[of ?st2] h2 by simp
  qed
qed

lemma upload_attempts_logs:
  "removes_of (history (snd (upload_attempts p t d as st))) = removes_of (history st)
   \<and> inserts_of (history (snd (upload_attempts p t d as st))) =
       inserts_of (history st) @
         replicate (uploads (snd (upload_attempts p t d as st)) - uploads st) (p, t, d)"
proof (induction as arbitrary: st)
  case Nil
  show ?case by simp
next
  case (Cons a as)
  let ?st1 = "record_event (Insert p t d) (st\<lparr>uploads := Suc (uploads st)\<rparr>)"
  have h1: "removes_of (history ?st1) = removes_of (history st)"
           "inserts_of (history ?st1) = inserts_of (history st) @ [(p, t, d)]"
           "uploads ?st1 = Suc (uploads st)"
    by (simp_all add: record_event_def removes_of_def inserts_of_def)
  show ?case
  proof (cases "next_upload st (uploads st)")
    case Uploaded
    then show ?thesis using h1 by (simp add: Let_def)
  next
    case (Failed status)
    let ?st2 = "record_event (Sleep (backoff status a)) ?st1"
    have step: "upload_attempts p t d (a # as) st = upload_attempts p t d as ?st2"
      using Failed by (simp add: Let_def)
    have h2: "removes_of (history ?st2) = removes_of (history st)"
             "inserts_of (history ?st2) = inserts_of (history st) @ [(p, t, d)]"
             "uploads ?st2 = Suc (uploads st)"
      by (simp_all add: record_event_def removes_of_def inserts_of_def)
    have le: "Suc (uploads st) \<le> uploads (snd (upload_attempts p t d as ?st2))"
      using upload_attempts_count[of ?st2 p t d as] h2(3) by simp
    have "replicate (uploads (snd (upload_attempts p t d as ?st2)) - uploads st) (p, t, d) =
          (p, t, d) # replicate (uploads (snd (upload_attempts p t d as ?st2)) - Suc (uploads st)) (p, t, d)"
      using le by (simp add: Suc_diff_le flip: replicate_Suc)
    then show ?thesis unfolding step using Cons.IH[of ?st2] h2 by simp
  qed
qed

lemma upload_video_logs:
  "removes_of (history (snd (upload_video cfg p t descr st))) = removes_of (history st)
   \<and> inserts_of (history (snd (upload_video cfg p t descr st))) =
       inserts_of (history st) @
         replicate (uploads (snd (upload_video cfg p t descr st)) - uploads st)
           (p, t, description_or_default cfg descr)"
proof -
  let ?d = "description_or_default cfg descr"
  let ?as = "py_range (MAX_RETRIES cfg)"
  let ?s1 = "record_event Authenticate (st\<lparr>youtube_service := True\<rparr>)"
  have s1: "uploads ?s1 = uploads st" "media_ok ?s1 = media_ok st"
    "removes_of (history ?s1) = removes_of (history st)"
    "inserts_of (history ?s1) = inserts_of (history st)"
    by (simp_all add: record_event_def removes_of_def inserts_of_def)
  consider (a) "youtube_service st" "media_ok st p"
    | (b) "\<not> youtube_service st" "auth_ok st" "media_ok st p"
    | (c) "\<not> youtube_service st" "\<not> auth_ok st"
    | (d) "youtube_service st" "\<not> media_ok st p"
    | (e) "\<not> youtube_service st" "auth_ok st" "\<not> media_ok st p"
    by blast
  then show ?thesis
  proof cases
    case a
    then have "snd (upload_video cfg p t descr st) = snd (upload_attempts p t ?d ?as st)"
      by (simp add: upload_video_def split: prod.splits)
    then show ?thesis using upload_attempts_logs[of p t ?d ?as st] by simp
  next
    case b
    then have "snd (upload_video cfg p t descr st) = snd (upload_attempts p t ?d ?as ?s1)"
      by (simp add: upload_video_def get_authenticated_service_def s1 split: prod.splits)
    then show ?thesis using upload_attempts_logs[of p t ?d ?as ?s1] unfolding s1 by simp
  next
    case c
    then show ?thesis by (simp add: upload_video_def get_authenticated_service_def)
  next
    case d
    then show ?thesis by (simp add: upload_video_def)
  next
    case e
    then show ?thesis by (simp add: upload_video_def get_authenticated_service_def s1)
  qed
qed

lemma cleanup_files_inserts:
  "inserts_of (history (cleanup_files d targets st)) = inserts_of (history st)"
proof (induction targets arbitrary: st)
  case Nil
  show ?case by simp
next
  case (Cons f rest)
  have "inserts_of (history (cleanup_step d f st)) = inserts_of (history st)"
    by (simp add: cleanup_step_def Let_def)
  then show ?case using Cons.IH[of "cleanup_step d f st"] by simp
qed

lemma rmdir_tolerant_fields:
  "uploads (rmdir_tolerant d st) = uploads st"
  "removes_of (history (rmdir_tolerant d st)) = removes_of (history st)"
  "inserts_of (history (rmdir_tolerant d st)) = inserts_of (history st)"
  "set (history st) \<subseteq> set (history (rmdir_tolerant d st))"
  by (auto simp: rmdir_tolerant_def record_event_def removes_of_def inserts_of_def)


lemma process_daily_videos_on_bucket:
  assumes names: "fs st day_dir = Some (Dir names)"
    and date_str: "date_str = (case date_arg of None \<Rightarrow> today | Some d \<Rightarrow> d)"
    and day_dir: "day_dir = os_path_join (DATA_DIR cfg) date_str"
    and out: "out = output_filename_of date_str"
    and files: "files = sort (filter (\<lambda>f. endswith f ''.mp4'') names)"
    and list_path: "list_path = os_path_join day_dir ''files.txt''"
    and stM: "stM = record_event (Manifest list_path (map (manifest_line st day_dir) files))
                          (add_file day_dir ''files.txt'' st)"
    and merge: "merge = concat_attempts list_path day_dir out (py_range (MAX_RETRIES cfg)) stM"
    and upload: "upload = upload_video cfg (os_path_join day_dir out) (title_of cfg date_str) None (snd merge)"
  shows "process_daily_videos cfg today date_arg st =
         (if files = [] then (Inr False, st)
          else if \<not> writable st list_path then (Inl OSError, st)
          else if \<not> fst merge then (Inr False, snd merge)
          else (case fst upload of
                  Inl e \<Rightarrow> (Inl e, snd upload)
                | Inr ok \<Rightarrow>
                    if ok then (Inr True, rmdir_tolerant day_dir
                                  (cleanup_files day_dir (files @ [''files.txt'', out]) (snd upload)))
                    else (Inr False, snd upload)))"
proof -
  have n: "fs st (os_path_join (DATA_DIR cfg) (case date_arg of None \<Rightarrow> today | Some d \<Rightarrow> d)) =
             Some (Dir names)"
    using names unfolding day_dir date_str .
  show ?thesis
    unfolding upload merge stM list_path files out day_dir date_str
    by (simp add: process_daily_videos_cases Let_def n)
qed

lemma process_daily_videos_uploads:
  assumes "st' = snd (process_daily_videos cfg today date_arg st)"
  shows "fst (process_daily_videos cfg today date_arg st) = Inr True \<longleftrightarrow>
           (\<exists>n. uploads st \<le> n \<and> n < uploads st' \<and> next_upload st n = Uploaded)"
proof -
  define date_str where "date_str = (case date_arg of None \<Rightarrow> today | Some d \<Rightarrow> d)"
  define day_dir where "day_dir = os_path_join (DATA_DIR cfg) date_str"
  define out where "out = output_filename_of date_str"
  show ?thesis
  proof (cases "fs st day_dir")
    case None
    then show ?thesis unfolding assms day_dir_def date_str_def
      by (simp add: process_daily_videos_cases Let_def)
  next
    case (Some nd)
    show ?thesis
    proof (cases nd)
      case File
      with Some show ?thesis unfolding assms day_dir_def date_str_def
        by (simp add: process_daily_videos_cases Let_def)
    next
      case (Dir names)
      define files where "files = sort (filter (\<lambda>f. endswith f ''.mp4'') names)"
      define list_path where "list_path = os_path_join day_dir ''files.txt''"
      define stM where "stM = record_event (Manifest list_path (map (manifest_line st day_dir) files))
                          (add_file day_dir ''files.txt'' st)"
      define merge where "merge = concat_attempts list_path day_dir out (py_range (MAX_RETRIES cfg)) stM"
      define upload where "upload = upload_video cfg (os_path_join day_dir out) (title_of cfg date_str) None (snd merge)"
      have m: "uploads stM = uploads st" "next_upload stM = next_upload st"
        unfolding stM_def by (subst add_file_frame, simp add: record_event_def)+
      have g: "uploads (snd merge) = uploads st" "next_upload (snd merge) = next_upload st"
        unfolding merge_def by (simp_all add: concat_attempts_fields m)
      have u: "fst upload = Inr True \<longleftrightarrow>
                 (\<exists>n. uploads st \<le> n \<and> n < uploads (snd upload) \<and> next_upload st n = Uploaded)"
        unfolding upload_def using upload_video_success_iff[of cfg _ _ None "snd merge"]
        unfolding g .
      have fsd: "fs st day_dir = Some (Dir names)" using Some Dir by simp
      note eq = process_daily_videos_on_bucket[OF fsd date_str_def day_dir_def out_def files_def
                  list_path_def stM_def merge_def upload_def]
      show ?thesis
      proof (cases "files = [] \<or> \<not> writable st list_path")
        case True
        then show ?thesis unfolding assms eq by auto
      next
        case ready: False
        show ?thesis
        proof (cases "fst merge")
          case False
          with ready show ?thesis unfolding assms eq by (simp add: g)
        next
          case True
          show ?thesis
          proof (cases "fst upload")
            case (Inl e)
            with ready True u show ?thesis unfolding assms eq by simp
          next
            case (Inr ok)
            with ready True u show ?thesis unfolding assms eq
              by (simp add: rmdir_tolerant_fields cleanup_files_fields)
          qed
        qed
      qed
    qed
  qed
qed

lemma concat_attempts_fs:
  "fs (snd (concat_attempts l d out as st)) =
     (if fst (concat_attempts l d out as st) then fs (add_file d out st) else fs st)"
  by (subst concat_attempts_frame) simp

lemma process_daily_videos_success_bucket:
  assumes success: "fst (process_daily_videos cfg today date_arg st) = Inr True"
    and date_str: "date_str = (case date_arg of None \<Rightarrow> today | Some d \<Rightarrow> d)"
    and day_dir: "day_dir = os_path_join (DATA_DIR cfg) date_str"
  shows "\<exists>names. fs st day_dir = Some (Dir names)"
proof (cases "fs st day_dir")
  case None
  then show ?thesis using success unfolding day_dir date_str
    by (simp add: process_daily_videos_cases Let_def)
next
  case (Some nd)
  then show ?thesis using success unfolding day_dir date_str
    by (cases nd) (simp_all add: process_daily_videos_cases Let_def)
qed




lemma endswith_append_long:
  "length p \<le> length b \<Longrightarrow> endswith (a @ b) p = endswith b p"
  by (simp add: endswith_def)

lemma process_daily_videos_inserts:
  assumes success: "fst (process_daily_videos cfg today date_arg st) = Inr True"
    and date_str: "date_str = (case date_arg of None \<Rightarrow> today | Some d \<Rightarrow> d)"
    and day_dir: "day_dir = os_path_join (DATA_DIR cfg) date_str"
    and st': "st' = snd (process_daily_videos cfg today date_arg st)"
  shows "inserts_of (history st') =
           inserts_of (history st) @
             replicate (uploads st' - uploads st)
               (os_path_join day_dir (output_filename_of date_str), title_of cfg date_str,
                YOUTUBE_UPLOAD_DESCRIPTION cfg)"
proof -
  from process_daily_videos_success_bucket[OF success date_str day_dir]
  obtain names where names: "fs st day_dir = Some (Dir names)" by blast
  define out where "out = output_filename_of date_str"
  define files where "files = sort (filter (\<lambda>f. endswith f ''.mp4'') names)"
  define list_path where "list_path = os_path_join day_dir ''files.txt''"
  define stM where "stM = record_event (Manifest list_path (map (manifest_line st day_dir) files))
                          (add_file day_dir ''files.txt'' st)"
  define merge where "merge = concat_attempts list_path day_dir out (py_range (MAX_RETRIES cfg)) stM"
  define upload where "upload = upload_video cfg (os_path_join day_dir out) (title_of cfg date_str) None (snd merge)"
  define stC where "stC = cleanup_files day_dir (files @ [''files.txt'', out]) (snd upload)"
  note eq = process_daily_videos_on_bucket[OF names date_str day_dir out_def files_def
                  list_path_def stM_def merge_def upload_def]
  from success have run: "files \<noteq> []" "writable st list_path" "fst merge" "fst upload = Inr True"
    unfolding eq by (auto split: if_splits sum.splits)
  then have final: "st' = rmdir_tolerant day_dir stC"
    unfolding st' eq stC_def by simp
  have m: "uploads stM = uploads st" "inserts_of (history stM) = inserts_of (history st)"
    unfolding stM_def by (subst add_file_frame, simp add: record_event_def inserts_of_def)+
  have g: "uploads (snd merge) = uploads st" "inserts_of (history (snd merge)) = inserts_of (history st)"
    unfolding merge_def using concat_attempts_logs[of list_path day_dir out _ stM] m
    by (simp_all add: concat_attempts_fields)
  have u: "inserts_of (history (snd upload)) =
             inserts_of (history st) @
               replicate (uploads (snd upload) - uploads st)
                 (os_path_join day_dir out, title_of cfg date_str, YOUTUBE_UPLOAD_DESCRIPTION cfg)"
    unfolding upload_def
    using upload_video_logs[of cfg "os_path_join day_dir out" "title_of cfg date_str" None "snd merge"] g
    by (simp add: description_or_default_def)
  have "inserts_of (history st') = inserts_of (history (snd upload))"
    and "uploads st' = uploads (snd upload)"
    unfolding final stC_def
    by (simp_all add: rmdir_tolerant_fields cleanup_files_inserts cleanup_files_fields)
  with u show ?thesis unfolding out_def by simp
qed

text \<open>
  Claim C8, as amended.  A run of \<open>process_daily_videos("2025-08-12")\<close> that
  returns \<open>True\<close> (the merge and the publish succeeded) has called the upload
  at least once, every time with the title made of the configured prefix, a
  space and the date key, and with the artifact path
  \<open>os.path.join(os.path.join(DATA_DIR, "2025-08-12"), "2025-08-12_combined.mp4")\<close>,
  which is \<open><DATA_DIR>/2025-08-12/2025-08-12_combined.mp4\<close> when \<open>DATA_DIR\<close>
  is not empty and does not end with a slash.  The name of the artifact is the
  date key followed by \<open>_combined.mp4\<close>, for every date key.
\<close>

theorem publish_called_with_title_and_mp4_path:
  assumes success: "fst (process_daily_videos cfg today (Some ''2025-08-12'') st) = Inr True"
    and st': "st' = snd (process_daily_videos cfg today (Some ''2025-08-12'') st)"
  shows "inserts_of (history st') =
           inserts_of (history st) @
             replicate (uploads st' - uploads st)
               (os_path_join (os_path_join (DATA_DIR cfg) ''2025-08-12'') ''2025-08-12_combined.mp4'',
                YOUTUBE_UPLOAD_TITLE_PREFIX cfg @ '' 2025-08-12'',
                YOUTUBE_UPLOAD_DESCRIPTION cfg)
       \<and> uploads st < uploads st'
       \<and> (DATA_DIR cfg \<noteq> [] \<and> \<not> endswith (DATA_DIR cfg) ''/'' \<longrightarrow>
            os_path_join (os_path_join (DATA_DIR cfg) ''2025-08-12'') ''2025-08-12_combined.mp4'' =
              DATA_DIR cfg @ ''/2025-08-12/2025-08-12_combined.mp4'')
       \<and> output_filename_of date_key = date_key @ ''_combined.mp4''"
proof -
  have a: "inserts_of (history st') =
           inserts_of (history st) @
             replicate (uploads st' - uploads st)
               (os_path_join (os_path_join (DATA_DIR cfg) ''2025-08-12'') ''2025-08-12_combined.mp4'',
                YOUTUBE_UPLOAD_TITLE_PREFIX cfg @ '' 2025-08-12'',
                YOUTUBE_UPLOAD_DESCRIPTION cfg)"
    using process_daily_videos_inserts[OF success _ refl st', of "''2025-08-12''"]
    by (simp add: output_filename_of_def title_of_def)
  have b: "uploads st < uploads st'"
    using process_daily_videos_uploads[OF st'] success by auto
  have c: "DATA_DIR cfg \<noteq> [] \<and> \<not> endswith (DATA_DIR cfg) ''/'' \<longrightarrow>
            os_path_join (os_path_join (DATA_DIR cfg) ''2025-08-12'') ''2025-08-12_combined.mp4'' =
              DATA_DIR cfg @ ''/2025-08-12/2025-08-12_combined.mp4''"
  proof
    assume d: "DATA_DIR cfg \<noteq> [] \<and> \<not> endswith (DATA_DIR cfg) ''/''"
    then have j: "os_path_join (DATA_DIR cfg) ''2025-08-12'' = DATA_DIR cfg @ ''/2025-08-12''"
      by (simp add: os_path_join_def startswith_def)
    have "\<not> endswith (DATA_DIR cfg @ ''/2025-08-12'') ''/''"
      using endswith_append_long[of "''/''" "''/2025-08-12''" "DATA_DIR cfg"]
      by (simp add: endswith_def)
    then show "os_path_join (os_path_join (DATA_DIR cfg) ''2025-08-12'') ''2025-08-12_combined.mp4'' =
              DATA_DIR cfg @ ''/2025-08-12/2025-08-12_combined.mp4''"
      unfolding j by (simp add: os_path_join_def startswith_def)
  qed
  show ?thesis using a b c by (simp add: output_filename_of_def)
qed

text \<open>
  Claim C8 as stated fails: in the scenario (two clips, merge and publish
  succeed) the path handed to the upload ends in \<open>_combined.mp4\<close>; it is not
  \<open><DATA_DIR>/2025-08-12/2025-08-12_combined\<close>.
\<close>

theorem publish_path_carries_mp4_extension:
  "fst (process_daily_videos example_config ''2025-08-14'' (Some ''2025-08-12'') two_clips) = Inr True
   \<and> inserts_of (history (snd (process_daily_videos example_config ''2025-08-14''
                                 (Some ''2025-08-12'') two_clips))) =
        [(''/data/2025-08-12/2025-08-12_combined.mp4'', ''RPiCam 2025-08-12'',
          ''Uploaded by RPI-Cam-Web-Interface-Scraper'')]
   \<and> ''/data/2025-08-12/2025-08-12_combined.mp4'' \<noteq> DATA_DIR example_config @ ''/2025-08-12/2025-08-12_combined''"
  by code_simp

theorem publish_called_with_title_and_mp4_path_witness:
  "fst (process_daily_videos example_config ''2025-08-14'' (Some ''2025-08-12'') two_clips) = Inr True
   \<and> uploads two_clips <
        uploads (snd (process_daily_videos example_config ''2025-08-14'' (Some ''2025-08-12'') two_clips))
   \<and> DATA_DIR example_config \<noteq> []
   \<and> \<not> endswith (DATA_DIR example_config) ''/''
   \<and> os_path_join (os_path_join (DATA_DIR example_config) ''2025-08-12'') ''2025-08-12_combined.mp4'' =
        DATA_DIR example_config @ ''/2025-08-12/2025-08-12_combined.mp4''"
proof -
  have t: "fst (process_daily_videos example_config ''2025-08-14'' (Some ''2025-08-12'') two_clips) = Inr True"
    by code_simp
  have d: "DATA_DIR example_config \<noteq> []" "\<not> endswith (DATA_DIR example_config) ''/''"
    by (simp_all add: example_config_def endswith_def)
  from publish_called_with_title_and_mp4_path[OF t refl] d t
  show ?thesis by blast
qed

lemma upload_video_history:
  "set (history st) \<subseteq> set (history (snd (upload_video cfg p t descr st)))"
proof -
  let ?d = "description_or_default cfg descr"
  let ?as = "py_range (MAX_RETRIES cfg)"
  let ?s1 = "record_event Authenticate (st\<lparr>youtube_service := True\<rparr>)"
  have s1: "media_ok ?s1 = media_ok st" "set (history st) \<subseteq> set (history ?s1)"
    by (auto simp: record_event_def)
  consider (a) "youtube_service st" "media_ok st p"
    | (b) "\<not> youtube_service st" "auth_ok st" "media_ok st p"
    | (c) "\<not> youtube_service st" "\<not> auth_ok st"
    | (d) "youtube_service st" "\<not> media_ok st p"
    | (e) "\<not> youtube_service st" "auth_ok st" "\<not> media_ok st p"
    by blast
  then show ?thesis
  proof cases
    case a
    then have "snd (upload_video cfg p t descr st) = snd (upload_attempts p t ?d ?as st)"
      by (simp add: upload_video_def split: prod.splits)
    then show ?thesis using upload_attempts_history[of st p t ?d ?as] by simp
  next
    case b
    then have "snd (upload_video cfg p t descr st) = snd (upload_attempts p t ?d ?as ?s1)"
      by (simp add: upload_video_def get_authenticated_service_def s1 split: prod.splits)
    then show ?thesis using upload_attempts_history[of ?s1 p t ?d ?as] s1(2) by auto
  next
    case c
    then show ?thesis by (simp add: upload_video_def get_authenticated_service_def)
  next
    case d
    then show ?thesis by (simp add: upload_video_def)
  next
    case e
    then show ?thesis using s1(2) by (simp add: upload_video_def get_authenticated_service_def s1(1))
  qed
qed

lemma cleanup_files_history:
  "set (history st) \<subseteq> set (history (cleanup_files d targets st))"
proof (induction targets arbitrary: st)
  case Nil
  show ?case by simp
next
  case (Cons f rest)
  have "set (history st) \<subseteq> set (history (cleanup_step d f st))"
    by (auto simp: cleanup_step_def Let_def record_event_def)
  with Cons.IH[of "cleanup_step d f st"] show ?case by auto
qed

lemma get_video_files_on_bucket:
  assumes "fs st day_dir = Some (Dir names)"
  shows "get_video_files st day_dir = Inr (sort (filter (\<lambda>f. endswith f ''.mp4'') names))"
  using assms by (simp add: get_video_files_def path_exists_def listdir_def)

lemma bucket_after_merge:
  assumes names: "fs st day_dir = Some (Dir names)"
    and stM: "stM = record_event ev (add_file day_dir ''files.txt'' st)"
    and merge: "merge = concat_attempts list_path day_dir out as stM"
    and ok: "fst merge"
  shows "\<exists>names2. fs (snd merge) = (fs st)(day_dir \<mapsto> Dir names2)
           \<and> set names2 = set names \<union> {''files.txt'', out}"
proof -
  define names1 where "names1 = (if ''files.txt'' \<in> set names then names else names @ [''files.txt''])"
  define names2 where "names2 = (if out \<in> set names1 then names1 else names1 @ [out])"
  have fM: "fs stM = (fs st)(day_dir \<mapsto> Dir names1)"
    unfolding stM names1_def using add_file_listing[OF names, of "''files.txt''"]
    by (simp add: record_event_def)
  then have "fs stM day_dir = Some (Dir names1)" by simp
  from add_file_listing[OF this, of out] have "fs (snd merge) = (fs st)(day_dir \<mapsto> Dir names2)"
    using ok fM unfolding merge concat_attempts_fs by (simp add: names2_def)
  moreover have "set names2 = set names \<union> {''files.txt'', out}"
    unfolding names2_def names1_def by auto
  ultimately show ?thesis by blast
qed

lemma process_daily_videos_leftover:
  assumes failed: "fst (process_daily_videos cfg today date_arg st) = Inr False"
    and tried: "uploads st < uploads st1"
    and date_str: "date_str = (case date_arg of None \<Rightarrow> today | Some d \<Rightarrow> d)"
    and day_dir: "day_dir = os_path_join (DATA_DIR cfg) date_str"
    and out: "out = output_filename_of date_str"
    and st1: "st1 = snd (process_daily_videos cfg today date_arg st)"
  shows "\<exists>names2. fs st1 day_dir = Some (Dir names2) \<and> out \<in> set names2
           \<and> writable st1 = writable st"
proof -
  have "\<exists>names. fs st day_dir = Some (Dir names)"
  proof (cases "fs st day_dir")
    case None
    then have "st1 = st" unfolding st1 day_dir date_str
      by (simp add: process_daily_videos_cases Let_def)
    with tried show ?thesis by simp
  next
    case (Some nd)
    show ?thesis
    proof (cases nd)
      case File
      with Some have "st1 = st" unfolding st1 day_dir date_str
        by (simp add: process_daily_videos_cases Let_def)
      with tried show ?thesis by simp
    next
      case (Dir names)
      with Some show ?thesis by simp
    qed
  qed
  then obtain names where names: "fs st day_dir = Some (Dir names)" by blast
  define files where "files = sort (filter (\<lambda>f. endswith f ''.mp4'') names)"
  define list_path where "list_path = os_path_join day_dir ''files.txt''"
  define stM where "stM = record_event (Manifest list_path (map (manifest_line st day_dir) files))
                          (add_file day_dir ''files.txt'' st)"
  define merge where "merge = concat_attempts list_path day_dir out (py_range (MAX_RETRIES cfg)) stM"
  define upload where "upload = upload_video cfg (os_path_join day_dir out) (title_of cfg date_str) None (snd merge)"
  note eq = process_daily_videos_on_bucket[OF names date_str day_dir out files_def
                  list_path_def stM_def merge_def upload_def]
  have m: "uploads stM = uploads st" "writable stM = writable st"
    unfolding stM_def by (subst add_file_frame, simp add: record_event_def)+
  have g: "uploads (snd merge) = uploads st" "writable (snd merge) = writable st"
    unfolding merge_def by (simp_all add: concat_attempts_fields m)
  have ready: "files \<noteq> []" "writable st list_path"
    using tried unfolding st1 eq by (auto split: if_splits)
  have merged: "fst merge"
    using tried ready unfolding st1 eq by (auto simp: g split: if_splits)
  have up: "st1 = snd upload"
    using failed ready merged unfolding st1 eq by (auto split: sum.splits if_splits)
  from bucket_after_merge[OF names stM_def merge_def merged]
  obtain names2 where n2: "fs (snd merge) = (fs st)(day_dir \<mapsto> Dir names2)"
    and s2: "set names2 = set names \<union> {''files.txt'', out}" by blast
  have "fs st1 day_dir = Some (Dir names2)"
    unfolding up upload_def upload_video_fields n2 by simp
  moreover have "out \<in> set names2" using s2 by simp
  moreover have "writable st1 = writable st"
    unfolding up upload_def upload_video_fields g ..
  ultimately show ?thesis by blast
qed

lemma process_daily_videos_writes_manifest:
  assumes names: "fs st day_dir = Some (Dir names)"
    and date_str: "date_str = (case date_arg of None \<Rightarrow> today | Some d \<Rightarrow> d)"
    and day_dir: "day_dir = os_path_join (DATA_DIR cfg) date_str"
    and files: "files = sort (filter (\<lambda>f. endswith f ''.mp4'') names)"
    and nonempty: "files \<noteq> []"
    and list_path: "list_path = os_path_join day_dir ''files.txt''"
    and w: "writable st list_path"
  shows "Manifest list_path (map (manifest_line st day_dir) files)
           \<in> set (history (snd (process_daily_videos cfg today date_arg st)))"
proof -
  define out where "out = output_filename_of date_str"
  define stM where "stM = record_event (Manifest list_path (map (manifest_line st day_dir) files))
                          (add_file day_dir ''files.txt'' st)"
  define merge where "merge = concat_attempts list_path day_dir out (py_range (MAX_RETRIES cfg)) stM"
  define upload where "upload = upload_video cfg (os_path_join day_dir out) (title_of cfg date_str) None (snd merge)"
  define stC where "stC = cleanup_files day_dir (files @ [''files.txt'', out]) (snd upload)"
  note eq = process_daily_videos_on_bucket[OF names date_str day_dir out_def files
                  list_path stM_def merge_def upload_def]
  let ?m = "Manifest list_path (map (manifest_line st day_dir) files)"
  have a: "?m \<in> set (history stM)"
    unfolding stM_def by (simp add: record_event_def)
  have b: "?m \<in> set (history (snd merge))"
    using a concat_attempts_history[of stM list_path day_dir out "py_range (MAX_RETRIES cfg)"]
    unfolding merge_def by blast
  have c: "?m \<in> set (history (snd upload))"
    using b upload_video_history[of "snd merge" cfg "os_path_join day_dir out" "title_of cfg date_str" None]
    unfolding upload_def by blast
  have d: "?m \<in> set (history (rmdir_tolerant day_dir stC))"
    using c cleanup_files_history[of "snd upload" day_dir "files @ [''files.txt'', out]"]
      rmdir_tolerant_fields(4)[of stC day_dir]
    unfolding stC_def by blast
  show ?thesis
    unfolding eq using nonempty w b c d
    by (auto simp: stC_def split: sum.splits)
qed

text \<open>
  Claim C10.  On a bucket directory listing \<open>names\<close>, \<open>get_video_files\<close>
  returns the names ending in \<open>.mp4\<close>, all of them and nothing else, in sorted
  order.  And when a run of \<open>process_daily_videos\<close> has returned \<open>False\<close>
  after trying to upload (the merge succeeded, the publish failed), the merged
  artifact \<open><date>_combined.mp4\<close> is among the files \<open>get_video_files\<close>
  returns in the state the run leaves behind; the next run for that date writes
  them all, the artifact included, into its manifest whenever it can write one.
\<close>

theorem get_video_files_keeps_leftover_artifact:
  assumes date_str: "date_str = (case date_arg of None \<Rightarrow> today | Some d \<Rightarrow> d)"
    and day_dir: "day_dir = os_path_join (DATA_DIR cfg) date_str"
    and out: "out = output_filename_of date_str"
    and st1: "st1 = snd (process_daily_videos cfg today date_arg st)"
  shows "(\<forall>names. fs st day_dir = Some (Dir names) \<longrightarrow>
            (\<exists>files. get_video_files st day_dir = Inr files \<and> sorted files
                \<and> mset files = mset (filter (\<lambda>f. endswith f ''.mp4'') names)))
       \<and> (fst (process_daily_videos cfg today date_arg st) = Inr False \<and> uploads st < uploads st1 \<longrightarrow>
            (\<exists>files1. get_video_files st1 day_dir = Inr files1
                \<and> out \<in> set files1
                \<and> (writable st1 (os_path_join day_dir ''files.txt'') \<longrightarrow>
                     Manifest (os_path_join day_dir ''files.txt'') (map (manifest_line st1 day_dir) files1)
                       \<in> set (history (snd (process_daily_videos cfg today date_arg st1))))))"
proof (intro conjI allI impI)
  fix names assume "fs st day_dir = Some (Dir names)"
  then have "get_video_files st day_dir = Inr (sort (filter (\<lambda>f. endswith f ''.mp4'') names))"
    by (rule get_video_files_on_bucket)
  then show "\<exists>files. get_video_files st day_dir = Inr files \<and> sorted files
                \<and> mset files = mset (filter (\<lambda>f. endswith f ''.mp4'') names)"
    by simp
next
  assume a: "fst (process_daily_videos cfg today date_arg st) = Inr False \<and> uploads st < uploads st1"
  from process_daily_videos_leftover[OF _ _ date_str day_dir out st1] a
  obtain names2 where n2: "fs st1 day_dir = Some (Dir names2)" and o2: "out \<in> set names2"
    by blast
  define files1 where "files1 = sort (filter (\<lambda>f. endswith f ''.mp4'') names2)"
  have g: "get_video_files st1 day_dir = Inr files1"
    unfolding files1_def by (rule get_video_files_on_bucket[OF n2])
  have "endswith out ''.mp4''"
    unfolding out output_filename_of_def
    using endswith_append[of "date_str @ ''_combined''" "''.mp4''"] by simp
  with o2 have mem: "out \<in> set files1" unfolding files1_def by simp
  then have ne: "files1 \<noteq> []" by auto
  have "writable st1 (os_path_join day_dir ''files.txt'') \<longrightarrow>
          Manifest (os_path_join day_dir ''files.txt'') (map (manifest_line st1 day_dir) files1)
            \<in> set (history (snd (process_daily_videos cfg today date_arg st1)))"
    using process_daily_videos_writes_manifest[OF n2 date_str day_dir files1_def ne refl] by blast
  with g mem show "\<exists>files1. get_video_files st1 day_dir = Inr files1
                \<and> out \<in> set files1
                \<and> (writable st1 (os_path_join day_dir ''files.txt'') \<longrightarrow>
                     Manifest (os_path_join day_dir ''files.txt'') (map (manifest_line st1 day_dir) files1)
                       \<in> set (history (snd (process_daily_videos cfg today date_arg st1))))"
    by blast
qed

theorem get_video_files_keeps_leftover_artifact_witness:
  "fs two_clips ''/data/2025-08-12'' = Some (Dir [''video2.mp4'', ''notes.txt'', ''video1.mp4''])
   \<and> get_video_files two_clips ''/data/2025-08-12'' = Inr [''video1.mp4'', ''video2.mp4'']
   \<and> fst (process_daily_videos example_config ''2025-08-12'' None rejecting_service) = Inr False
   \<and> uploads rejecting_service <
        uploads (snd (process_daily_videos example_config ''2025-08-12'' None rejecting_service))
   \<and> (\<exists>files1. get_video_files (snd (process_daily_videos example_config ''2025-08-12'' None rejecting_service))
                   ''/data/2025-08-12'' = Inr files1
          \<and> ''2025-08-12_combined.mp4'' \<in> set files1)"
proof -
  have d: "os_path_join (DATA_DIR example_config) ''2025-08-12'' = ''/data/2025-08-12''"
    by code_simp
  have o: "output_filename_of ''2025-08-12'' = ''2025-08-12_combined.mp4''"
    by code_simp
  have f: "fs two_clips ''/data/2025-08-12'' = Some (Dir [''video2.mp4'', ''notes.txt'', ''video1.mp4''])"
    by code_simp
  have v: "get_video_files two_clips ''/data/2025-08-12'' = Inr [''video1.mp4'', ''video2.mp4'']"
    by code_simp
  have r: "fst (process_daily_videos example_config ''2025-08-12'' None rejecting_service) = Inr False"
    by code_simp
  have u: "uploads rejecting_service <
        uploads (snd (process_daily_videos example_config ''2025-08-12'' None rejecting_service))"
    by code_simp
  note th = get_video_files_keeps_leftover_artifact[where cfg = example_config and today = "''2025-08-12''"
         and date_arg = None and st = rejecting_service, OF refl refl refl refl, simplified option.case d o]
  from th r u
  have "\<exists>files1. get_video_files (snd (process_daily_videos example_config ''2025-08-12'' None rejecting_service))
                   ''/data/2025-08-12'' = Inr files1
          \<and> ''2025-08-12_combined.mp4'' \<in> set files1"
    by blast
  with f v r u show ?thesis by blast
qed

end
